theory Spec2Isabelle
  imports Complex_Main "HOL-Library.Monad_Syntax"
begin

section \<open>Data models\<close>

text \<open>
  JavaScript numbers are modelled as \<^typ>\<open>real\<close> (counts and priorities as \<^typ>\<open>int\<close>).
  NaN is modelled where the code can compute it, in the excitement score of an analysis
  and in the score of a clip; the infinities are not modelled. A thrown \<open>Error\<close> of the \<open>TimeRange\<close>
  constructor is the value \<open>None\<close>. An options object passed to a constructor is
  modelled by the record itself, an absent field being its falsy value (\<open>''''\<close>, \<open>0\<close>,
  \<open>False\<close>, \<open>[]\<close>), which \<open>opts.x || default\<close> does not distinguish from an absent one.
\<close>

subsection \<open>What the language leaves to its implementation\<close>

text \<open>
  A number, with \<open>None\<close> for NaN.
\<close>

type_synonym JsNumber = "real option"

text \<open>
  An object literal inherits the members of \<open>Object.prototype\<close> (\<open>constructor\<close>,
  \<open>toString\<close>, \<open>__proto__\<close> and so on): \<open>inherited eng k\<close> is the text \<open>String()\<close>
  gives for the member named \<open>k\<close>, and \<open>None\<close> when there is none. Such a member is a
  function or an object: it is truthy, and its text is not that of a number.
  \<open>Array.prototype.sort\<close> orders an array in an implementation-defined way when the
  comparison function is not consistent, as when it returns NaN for some pairs only:
  \<open>sortOrder eng keys\<close> lists the old index of each element of the result, for the array
  whose sort keys are \<open>keys\<close>.
\<close>

record Engine =
  inherited :: "string \<Rightarrow> string option"
  sortOrder :: "JsNumber list \<Rightarrow> nat list"

text \<open>The array rearranged by an order; an answer that is no permutation is no order.\<close>

definition applyOrder :: "nat list \<Rightarrow> 'a list \<Rightarrow> 'a list" where
  "applyOrder order xs = (if sort order = [0..<length xs] then map (nth xs) order else xs)"

subsection \<open>Number to string\<close>

text \<open>The decimal text of an integer, as string concatenation and template strings give it.\<close>

fun show_nat :: "nat \<Rightarrow> string" where
  "show_nat n =
     (if n < 10 then [char_of (48 + n)]
      else show_nat (n div 10) @ [char_of (48 + n mod 10)])"

definition show_int :: "int \<Rightarrow> string" where
  "show_int i = (if i < 0 then CHR ''-'' # show_nat (nat (- i)) else show_nat (nat i))"

subsection \<open>TimeRange\<close>

record TimeRange =
  startSeconds :: real
  endSeconds :: real

definition TimeRange_new :: "real \<Rightarrow> real \<Rightarrow> TimeRange option" where
  "TimeRange_new s e =
     (let st = max 0 s in
      if e \<le> st then None
      else Some \<lparr>startSeconds = st, endSeconds = e\<rparr>)"

definition duration :: "TimeRange \<Rightarrow> real" where
  "duration r = endSeconds r - startSeconds r"

definition midpoint :: "TimeRange \<Rightarrow> real" where
  "midpoint r = (startSeconds r + endSeconds r) / 2"

definition contains :: "TimeRange \<Rightarrow> real \<Rightarrow> bool" where
  "contains r t \<longleftrightarrow> startSeconds r \<le> t \<and> t \<le> endSeconds r"

subsection \<open>QualityScore\<close>

record QualityScore =
  score_value :: JsNumber
  breakdown :: "(string \<times> real) list"

text \<open>\<open>Math.max(0, Math.min(100, value))\<close> is NaN for NaN.\<close>

definition QualityScore_new :: "JsNumber \<Rightarrow> QualityScore" where
  "QualityScore_new v =
     \<lparr>score_value = map_option (\<lambda>x. max 0 (min 100 x)) v, breakdown = []\<rparr>"

subsection \<open>FrameAnalysis\<close>

text \<open>
  The value of \<open>excitementScore\<close>: a number, NaN, or a string. A string arises only by
  appending the text of an inherited member, so it is never the text of a number.
\<close>

datatype JsValue = Num real | NaN | Text string

record FrameAnalysis =
  framePath :: string
  timestamp :: real
  killLog :: bool
  matchStatus :: string
  actionIntensity :: string
  enemyVisible :: bool
  sceneDescription :: string
  confidence :: real
  excitementScore :: JsValue
  modelUsed :: string
  uiElements :: string
  metadata :: "(string \<times> string) list"
  killCount :: int
  enemyCount :: int
  visualQuality :: string

text \<open>\<open>s || d\<close> on strings: the empty string is falsy.\<close>

definition or_default :: "string \<Rightarrow> string \<Rightarrow> string" where
  "or_default s d = (if s = [] then d else s)"

text \<open>\<open>v || 0\<close>: zero, NaN and the empty string are falsy.\<close>

definition value_or_zero :: "JsValue \<Rightarrow> JsValue" where
  "value_or_zero v =
     (case v of Num x \<Rightarrow> Num x | NaN \<Rightarrow> Num 0 | Text t \<Rightarrow> if t = [] then Num 0 else Text t)"

text \<open>The constructor (the field \<open>rawResponse\<close>, always \<open>null\<close> here, is left out).\<close>

definition FrameAnalysis_new :: "FrameAnalysis \<Rightarrow> FrameAnalysis" where
  "FrameAnalysis_new opts =
     opts\<lparr>matchStatus := or_default (matchStatus opts) ''unknown'',
          actionIntensity := or_default (actionIntensity opts) ''low'',
          excitementScore := value_or_zero (excitementScore opts),
          visualQuality := or_default (visualQuality opts) ''normal''\<rparr>"

text \<open>The options object \<open>{}\<close>: every field absent.\<close>

definition no_opts :: FrameAnalysis where
  "no_opts =
     \<lparr>framePath = [], timestamp = 0, killLog = False, matchStatus = [],
      actionIntensity = [], enemyVisible = False, sceneDescription = [],
      confidence = 0, excitementScore = Num 0, modelUsed = [], uiElements = [],
      metadata = [], killCount = 0, enemyCount = 0, visualQuality = []\<rparr>"

text \<open>
  \<open>fromApiResponse\<close>. \<open>parsed\<close> holds the fields of the parsed JSON object after the
  coercions (\<open>!!\<close>, \<open>String\<close>, \<open>Number\<close>, \<open>parseInt\<close>) of the source.
\<close>

definition fromApiResponse :: "FrameAnalysis \<Rightarrow> real \<Rightarrow> string \<Rightarrow> FrameAnalysis" where
  "fromApiResponse parsed ts model =
     FrameAnalysis_new
       (parsed\<lparr>framePath := [], timestamp := ts, excitementScore := Num 0, metadata := [],
               modelUsed := model\<rparr>)"

subsection \<open>Clip\<close>

record Clip =
  timeRange :: TimeRange
  reason :: string
  score :: QualityScore
  clipType :: string
  label :: string
  priority :: int
  clip_actionIntensity :: string
  clip_id :: string
  clip_metadata :: "(string \<times> bool) list"

text \<open>
  The constructor. \<open>uuid\<close> is the value \<open>crypto.randomUUID()\<close> returns if it is called,
  which is when no \<open>id\<close> is passed. Every call site passes \<open>timeRange\<close> and \<open>score\<close>.
\<close>

definition Clip_new :: "string \<Rightarrow> Clip \<Rightarrow> Clip" where
  "Clip_new uuid opts =
     opts\<lparr>clip_actionIntensity := or_default (clip_actionIntensity opts) ''low'',
          clip_id := or_default (clip_id opts) uuid\<rparr>"

definition clip_duration :: "Clip \<Rightarrow> real" where
  "clip_duration c = duration (timeRange c)"

definition clip_start :: "Clip \<Rightarrow> real" where
  "clip_start c = startSeconds (timeRange c)"

definition clip_end :: "Clip \<Rightarrow> real" where
  "clip_end c = endSeconds (timeRange c)"

text \<open>
  \<open>withAdjustedRange\<close> passes every field of the clip, its \<open>id\<close> included, to the
  constructor. A constructed clip has a non-empty \<open>id\<close> and \<open>actionIntensity\<close>, so
  no UUID is drawn and only the range changes.
\<close>

definition withAdjustedRange :: "Clip \<Rightarrow> TimeRange \<Rightarrow> Clip" where
  "withAdjustedRange c newRange = Clip_new (clip_id c) (c\<lparr>timeRange := newRange\<rparr>)"

section \<open>Highlight detector\<close>

subsection \<open>Excitement scoring\<close>

text \<open>
  \<open>table[key]\<close> on an object literal with numeric values: an own property, a member
  inherited from \<open>Object.prototype\<close>, or \<open>undefined\<close>.
\<close>

datatype Member = Own int | Inherit string | Missing

definition getMember :: "Engine \<Rightarrow> (string \<times> int) list \<Rightarrow> string \<Rightarrow> Member" where
  "getMember eng table k =
     (case map_of table k of
        Some v \<Rightarrow> Own v
      | None \<Rightarrow> (case inherited eng k of Some t \<Rightarrow> Inherit t | None \<Rightarrow> Missing))"

text \<open>
  A variable that starts as an integer and is added to with \<open>+=\<close>: it stays an integer
  while numbers are added, and becomes a string, their texts concatenated, once a
  function or an object has been added.
\<close>

datatype Acc = N int | S string

text \<open>\<open>acc += k\<close> for a number \<open>k\<close>.\<close>

definition plusNum :: "Acc \<Rightarrow> int \<Rightarrow> Acc" where
  "plusNum acc k = (case acc of N a \<Rightarrow> N (a + k) | S s \<Rightarrow> S (s @ show_int k))"

text \<open>\<open>acc += table[key] || 0\<close>: an inherited member is truthy, so it is what is added.\<close>

definition plusMember :: "Acc \<Rightarrow> Member \<Rightarrow> Acc" where
  "plusMember acc m =
     (case m of
        Own v \<Rightarrow> plusNum acc v
      | Missing \<Rightarrow> plusNum acc 0
      | Inherit t \<Rightarrow> (case acc of N a \<Rightarrow> S (show_int a @ t) | S s \<Rightarrow> S (s @ t)))"

definition intensityMap :: "(string \<times> int) list" where
  "intensityMap = [(''very_high'', 25), (''high'', 18), (''medium'', 10), (''low'', 0)]"

definition statusMap :: "(string \<times> int) list" where
  "statusMap = [(''victory'', 10), (''clutch'', 20), (''overtime'', 12), (''defeat'', -5),
                (''normal'', 0)]"

text \<open>
  The callback of \<open>analyzeExcitementLevels\<close> in two parts: \<open>killBlock\<close> is the value of
  \<open>excitement\<close> after the block \<open>if (a.killLog) { ... }\<close>, and \<open>afterKillBlock\<close> is what
  the statements after that block make of it. Multiplying a string that is not the text
  of a number gives NaN.
\<close>

definition killBlock :: "FrameAnalysis \<Rightarrow> Acc" where
  "killBlock a =
     (let excitement = N 0 in
      if killLog a then
        (let excitement = plusNum excitement 25 in
         if killCount a \<ge> 3 then plusNum excitement 15
         else if killCount a \<ge> 2 then plusNum excitement 8
         else excitement)
      else excitement)"

definition afterKillBlock :: "Engine \<Rightarrow> FrameAnalysis \<Rightarrow> Acc \<Rightarrow> JsValue" where
  "afterKillBlock eng a excitement0 =
     (let excitement = plusMember excitement0 (getMember eng intensityMap (actionIntensity a));
          excitement = plusMember excitement (getMember eng statusMap (matchStatus a));
          excitement =
            (if enemyVisible a then
               (let excitement = plusNum excitement 10 in
                if enemyCount a \<ge> 3 then plusNum excitement 5 else excitement)
             else excitement)
      in if confidence a > 0 then
           (case excitement of
              N n \<Rightarrow> Num (real_of_int n * (1/2 + 1/2 * confidence a))
            | S s \<Rightarrow> NaN)
         else
           (case excitement of N n \<Rightarrow> Num (real_of_int n) | S s \<Rightarrow> Text s))"

definition excitementOf :: "Engine \<Rightarrow> FrameAnalysis \<Rightarrow> JsValue" where
  "excitementOf eng a = afterKillBlock eng a (killBlock a)"

definition analyzeExcitementLevels :: "Engine \<Rightarrow> FrameAnalysis list \<Rightarrow> FrameAnalysis list" where
  "analyzeExcitementLevels eng analyses =
     map (\<lambda>a. FrameAnalysis_new (a\<lparr>excitementScore := excitementOf eng a\<rparr>)) analyses"

text \<open>
  Comparisons of an \<open>excitementScore\<close> with a number: false of NaN, and of a string,
  which converts to NaN.
\<close>

definition positiveScore :: "JsValue \<Rightarrow> real option" where
  "positiveScore v = (case v of Num x \<Rightarrow> if x > 0 then Some x else None | _ \<Rightarrow> None)"

definition score_ge :: "JsValue \<Rightarrow> real \<Rightarrow> bool" where
  "score_ge v bound = (case v of Num x \<Rightarrow> x \<ge> bound | _ \<Rightarrow> False)"

subsection \<open>Event extraction\<close>

record MultiEvent =
  ev_type :: string
  ev_timestamp :: real
  ev_killCount :: int
  ev_endTimestamp :: real

record ClutchMoment =
  cm_timestamp :: real
  cm_type :: string
  cm_actionIntensity :: string

record MomentumShift =
  ms_timestamp :: real
  ms_type :: string
  ms_magnitude :: real

definition classifyMultiEvent :: "int \<Rightarrow> string" where
  "classifyMultiEvent count =
     (if count \<ge> 5 then ''ACE''
      else if count = 4 then ''QUAD KILL''
      else if count = 3 then ''TRIPLE KILL''
      else if count = 2 then ''DOUBLE KILL''
      else ''KILL'')"

text \<open>
  The outer \<open>while\<close> of \<open>detectMultiEvents\<close> on the sorted kill timestamps from index
  \<open>i\<close> on. The inner \<open>while\<close> advances \<open>j\<close> over the longest run of timestamps within
  \<open>timeWindow\<close> of \<open>windowStart\<close>; \<open>j > i\<close> always holds, so \<open>killTimestamps[j - 1]\<close> is
  the last timestamp of the run and the next \<open>i\<close> is \<open>j\<close>.
\<close>

function multiEventsLoop :: "real \<Rightarrow> real list \<Rightarrow> MultiEvent list" where
  "multiEventsLoop timeWindow [] = []"
| "multiEventsLoop timeWindow (windowStart # rest) =
     (if 1 + int (length (takeWhile (\<lambda>t. t - windowStart \<le> timeWindow) rest)) \<ge> 2
      then [\<lparr>ev_type = classifyMultiEvent
                 (1 + int (length (takeWhile (\<lambda>t. t - windowStart \<le> timeWindow) rest))),
             ev_timestamp = windowStart,
             ev_killCount = 1 + int (length (takeWhile (\<lambda>t. t - windowStart \<le> timeWindow) rest)),
             ev_endTimestamp =
               last (windowStart # takeWhile (\<lambda>t. t - windowStart \<le> timeWindow) rest)\<rparr>]
      else [])
     @ multiEventsLoop timeWindow (dropWhile (\<lambda>t. t - windowStart \<le> timeWindow) rest)"
  by pat_completeness auto
termination
  by (relation "measure (\<lambda>(timeWindow, ts). length ts)")
     (auto simp: less_Suc_eq_le length_dropWhile_le)

definition detectMultiEvents :: "FrameAnalysis list \<Rightarrow> MultiEvent list" where
  "detectMultiEvents analyses =
     multiEventsLoop 10 (sort (map timestamp (filter killLog analyses)))"

definition detectClutchMoments :: "FrameAnalysis list \<Rightarrow> ClutchMoment list" where
  "detectClutchMoments analyses =
     map (\<lambda>a. \<lparr>cm_timestamp = timestamp a, cm_type = ''clutch'',
               cm_actionIntensity = actionIntensity a\<rparr>)
         (filter (\<lambda>a. matchStatus a = ''clutch'') analyses)"

definition average :: "real list \<Rightarrow> real" where
  "average xs = fold (\<lambda>v s. s + v) xs 0 / real (length xs)"

text \<open>The \<open>for\<close> loop of \<open>analyzeMomentumShifts\<close> from index \<open>i\<close> on, with \<open>window = 5\<close>.\<close>

function shiftsLoop :: "(real \<times> real) list \<Rightarrow> nat \<Rightarrow> MomentumShift list" where
  "shiftsLoop timeline i =
     (if int i \<le> int (length timeline) - 5 * 2 then
        (let beforeScores = map snd (take 5 (drop i timeline));
             afterScores = map snd (take 5 (drop (i + 5) timeline))
         in if length afterScores < 5 then []
            else
              (let change = average afterScores - average beforeScores
               in (if \<bar>change\<bar> > 10
                   then [\<lparr>ms_timestamp = fst (timeline ! (i + 5)),
                          ms_type = (if change > 0 then ''momentum_up'' else ''momentum_down''),
                          ms_magnitude = \<bar>change\<bar>\<rparr>]
                   else [])
                  @ shiftsLoop timeline (i + 1)))
      else [])"
  by pat_completeness auto
termination
  by (relation "measure (\<lambda>(timeline, i). length timeline - i)") auto

definition analyzeMomentumShifts :: "FrameAnalysis list \<Rightarrow> MomentumShift list" where
  "analyzeMomentumShifts analyses =
     (let timeline = List.map_filter
                        (\<lambda>a. map_option (\<lambda>x. (timestamp a, x)) (positiveScore (excitementScore a)))
                        analyses
      in if length timeline < 10 then [] else shiftsLoop timeline 0)"

subsection \<open>Merging overlapping clips\<close>

text \<open>
  The \<open>for\<close> loop of \<open>mergeOverlappingClips\<close>. The array \<open>merged\<close> is never empty; it is
  kept as \<open>front @ [lastClip]\<close>, so that \<open>merged[merged.length - 1]\<close> is \<open>lastClip\<close>
  (\<open>last\<close> in the source).
\<close>

fun mergeLoop :: "Clip list \<Rightarrow> Clip \<Rightarrow> Clip list \<Rightarrow> Clip list option" where
  "mergeLoop front lastClip [] = Some (front @ [lastClip])"
| "mergeLoop front lastClip (current # rest) =
     (if clip_start current \<le> clip_end lastClip then
        (case TimeRange_new (min (clip_start lastClip) (clip_start current))
                            (max (clip_end lastClip) (clip_end current)) of
           None \<Rightarrow> None
         | Some newRange \<Rightarrow>
             mergeLoop front
               (withAdjustedRange
                  (if priority lastClip \<ge> priority current then lastClip else current)
                  newRange)
               rest)
      else mergeLoop (front @ [lastClip]) current rest)"

definition mergeOverlappingClips :: "Clip list \<Rightarrow> Clip list option" where
  "mergeOverlappingClips clips =
     (case sort_key clip_start clips of
        [] \<Rightarrow> Some []
      | first # rest \<Rightarrow> mergeLoop [] first rest)"

subsection \<open>Highlight proposal\<close>

definition multiKillClip :: "string \<Rightarrow> MultiEvent \<Rightarrow> Clip option" where
  "multiKillClip uuid mk =
     (let endTs = (if ev_endTimestamp mk \<noteq> 0 then ev_endTimestamp mk else ev_timestamp mk)
      in case TimeRange_new (max 0 (ev_timestamp mk - 3)) (endTs + 3) of
           None \<Rightarrow> None
         | Some r \<Rightarrow>
             Some (Clip_new uuid
               \<lparr>timeRange = r,
                reason = ev_type mk @ '' ('' @ show_int (ev_killCount mk) @ '' kills)'',
                score = QualityScore_new (Some 90), clipType = ''multi_kill'', label = ev_type mk,
                priority = 10, clip_actionIntensity = [], clip_id = [],
                clip_metadata = []\<rparr>))"

definition clutchClip :: "string \<Rightarrow> ClutchMoment \<Rightarrow> Clip option" where
  "clutchClip uuid cm =
     (case TimeRange_new (max 0 (cm_timestamp cm - 5)) (cm_timestamp cm + 5) of
        None \<Rightarrow> None
      | Some r \<Rightarrow>
          Some (Clip_new uuid
            \<lparr>timeRange = r, reason = ''Clutch moment'', score = QualityScore_new (Some 80),
             clipType = ''clutch'', label = ''CLUTCH'', priority = 9,
             clip_actionIntensity = [], clip_id = [], clip_metadata = []\<rparr>))"

definition excitementClip :: "string \<Rightarrow> FrameAnalysis \<Rightarrow> Clip option" where
  "excitementClip uuid a =
     (case TimeRange_new (max 0 (timestamp a - 2)) (timestamp a + 3) of
        None \<Rightarrow> None
      | Some r \<Rightarrow>
          Some (Clip_new uuid
            \<lparr>timeRange = r, reason = ''High excitement'', score = QualityScore_new (Some 70),
             clipType = ''high_excitement'', label = ''INTENSE'', priority = 7,
             clip_actionIntensity = [], clip_id = [], clip_metadata = []\<rparr>))"

text \<open>
  The three seeding loops of \<open>suggestHighlights\<close>. \<open>rnd k\<close> is the value of the
  \<open>k\<close>-th call of \<open>crypto.randomUUID()\<close> in one run of the director (counted from 0);
  each constructed clip draws one.
\<close>

definition seedHighlights ::
  "(nat \<Rightarrow> string) \<Rightarrow> FrameAnalysis list \<Rightarrow> MultiEvent list \<Rightarrow> ClutchMoment list
   \<Rightarrow> Clip list option" where
  "seedHighlights rnd analyses multiEvents clutchMoments =
     do {
       h1 \<leftarrow> those (map (\<lambda>(k, mk). multiKillClip (rnd k) mk) (enumerate 0 multiEvents));
       h2 \<leftarrow> those (map (\<lambda>(k, cm). clutchClip (rnd k) cm)
                         (enumerate (length multiEvents) clutchMoments));
       h3 \<leftarrow> those (map (\<lambda>(k, a). excitementClip (rnd k) a)
                         (enumerate (length multiEvents + length clutchMoments)
                            (filter (\<lambda>a. score_ge (excitementScore a) 25) analyses)));
       Some (h1 @ h2 @ h3)
     }"

definition suggestHighlights ::
  "(nat \<Rightarrow> string) \<Rightarrow> FrameAnalysis list \<Rightarrow> MultiEvent list \<Rightarrow> ClutchMoment list
   \<Rightarrow> Clip list option" where
  "suggestHighlights rnd analyses multiEvents clutchMoments =
     do {
       highlights \<leftarrow> seedHighlights rnd analyses multiEvents clutchMoments;
       mergeOverlappingClips (sort_key (\<lambda>c. - priority c) highlights)
     }"

subsection \<open>Math helpers and variety\<close>

definition variance :: "real list \<Rightarrow> real" where
  "variance arr =
     (if length arr < 2 then 0
      else (let mean = fold (\<lambda>v s. s + v) arr 0 / real (length arr)
            in fold (\<lambda>v s. s + (v - mean)\<^sup>2) arr 0 / (real (length arr) - 1)))"

record VarietyAnalysis =
  varietyScore :: real
  uniqueTypes :: "nat option"
  durationVariance :: "real option"
  issues :: "string list"

definition analyzeVariety :: "Clip list \<Rightarrow> VarietyAnalysis" where
  "analyzeVariety clips =
     (if clips = [] then
        \<lparr>varietyScore = 0, uniqueTypes = None, durationVariance = None,
         issues = [''no_clips'']\<rparr>
      else
        (let types = map (\<lambda>c. or_default (clipType c) ''unknown'') clips;
             uniqueTypes = length (remdups types);
             durations = map clip_duration clips;
             durVariance = (if length durations > 1 then variance durations else 0);
             varietyScore = min 100 (real uniqueTypes * 20 + min 30 (durVariance * 5))
         in \<lparr>varietyScore = varietyScore, uniqueTypes = Some uniqueTypes,
              durationVariance = Some durVariance,
              issues = (if uniqueTypes < 2 then [''low_type_variety''] else [])
                       @ (if durVariance < 2 then [''uniform_clip_lengths''] else [])\<rparr>))"

section \<open>Composition planner\<close>

record CompositionPlanner =
  targetDuration :: real
  minClipLength :: real
  maxClipLength :: real
  optimalPace :: real

text \<open>\<open>x || d\<close> on numbers: zero is falsy.\<close>

definition num_or :: "real \<Rightarrow> real \<Rightarrow> real" where
  "num_or x d = (if x = 0 then d else x)"

definition CompositionPlanner_new :: "CompositionPlanner \<Rightarrow> CompositionPlanner" where
  "CompositionPlanner_new opts =
     \<lparr>targetDuration = num_or (targetDuration opts) 180,
      minClipLength = num_or (minClipLength opts) 3,
      maxClipLength = num_or (maxClipLength opts) 15,
      optimalPace = num_or (optimalPace opts) 5\<rparr>"

text \<open>
  The search for the analysis closest to \<open>midTime\<close> in \<open>scoreClips\<close>. The state is
  \<open>(closest, closestDist)\<close>, with \<open>None\<close> for the initial \<open>(null, Infinity)\<close>.
\<close>

fun closestLoop ::
  "real \<Rightarrow> (FrameAnalysis \<times> real) option \<Rightarrow> FrameAnalysis list
   \<Rightarrow> (FrameAnalysis \<times> real) option" where
  "closestLoop midTime st [] = st"
| "closestLoop midTime st (a # analyses) =
     (let d = \<bar>timestamp a - midTime\<bar>
      in closestLoop midTime
           (case st of
              None \<Rightarrow> Some (a, d)
            | Some (closest, closestDist) \<Rightarrow> if d < closestDist then Some (a, d) else st)
           analyses)"

definition intensityScores :: "(string \<times> int) list" where
  "intensityScores = [(''very_high'', 8), (''high'', 6), (''medium'', 4), (''low'', 2)]"

text \<open>
  The number a numeric operator (\<open>-=\<close>, \<open>Math.max\<close>) sees in such a variable: a string
  that is not the text of a number converts to NaN.
\<close>

definition toNumber :: "Acc \<Rightarrow> JsNumber" where
  "toNumber acc = (case acc of N a \<Rightarrow> Some (real_of_int a) | S s \<Rightarrow> None)"

text \<open>\<open>acc -= k\<close>.\<close>

definition minusNum :: "Acc \<Rightarrow> real \<Rightarrow> JsNumber" where
  "minusNum acc k = map_option (\<lambda>x. x - k) (toNumber acc)"

definition scoreClip :: "Engine \<Rightarrow> CompositionPlanner \<Rightarrow> FrameAnalysis list \<Rightarrow> Clip \<Rightarrow> Clip" where
  "scoreClip eng p analyses clip =
     (let closest = map_option fst (closestLoop (midpoint (timeRange clip)) None analyses);
          sc = (case closest of
                  None \<Rightarrow> N 0
                | Some a \<Rightarrow>
                    (let sc = (if killLog a then plusNum (N 0) 10 else N 0);
                         sc = plusMember sc (getMember eng intensityScores (actionIntensity a))
                     in if matchStatus a = ''victory'' then plusNum sc 5
                        else if matchStatus a = ''clutch'' then plusNum sc 7
                        else sc));
          actionIntensity' = (case closest of
                                None \<Rightarrow> clip_actionIntensity clip
                              | Some a \<Rightarrow> actionIntensity a);
          sc = (if clip_duration clip > maxClipLength p then minusNum sc 2
                else if clip_duration clip < minClipLength p then minusNum sc 1
                else toNumber sc)
      in Clip_new (clip_id clip)
           (clip\<lparr>score := QualityScore_new (map_option (max 0) sc),
                 clip_actionIntensity := actionIntensity'\<rparr>))"

definition scoreClips ::
  "Engine \<Rightarrow> CompositionPlanner \<Rightarrow> Clip list \<Rightarrow> FrameAnalysis list \<Rightarrow> Clip list" where
  "scoreClips eng p clips analyses = map (scoreClip eng p analyses) clips"

definition adjustClipLength :: "CompositionPlanner \<Rightarrow> Clip \<Rightarrow> Clip option" where
  "adjustClipLength p clip =
     (let dur = clip_duration clip in
      if dur > maxClipLength p then
        (let center = midpoint (timeRange clip);
             half = maxClipLength p / 2
         in map_option (withAdjustedRange clip)
              (TimeRange_new (max (clip_start clip) (center - half))
                             (min (clip_end clip) (center + half))))
      else if dur < minClipLength p then
        (let ext = (minClipLength p - dur) / 2
         in map_option (withAdjustedRange clip)
              (TimeRange_new (max 0 (clip_start clip - ext)) (clip_end clip + ext)))
      else Some clip)"

definition adjustClipLengths :: "CompositionPlanner \<Rightarrow> Clip list \<Rightarrow> Clip list option" where
  "adjustClipLengths p clips = those (map (adjustClipLength p) clips)"

text \<open>The \<open>for\<close> loop of \<open>trimToTargetDuration\<close>; \<open>break\<close> ends it.\<close>

fun trimLoop ::
  "CompositionPlanner \<Rightarrow> Clip list \<Rightarrow> real \<Rightarrow> Clip list \<Rightarrow> Clip list option" where
  "trimLoop p trimmed accumulated [] = Some trimmed"
| "trimLoop p trimmed accumulated (clip # rest) =
     (if accumulated + clip_duration clip \<le> targetDuration p then
        trimLoop p (trimmed @ [clip]) (accumulated + clip_duration clip) rest
      else
        (let remaining = targetDuration p - accumulated in
         if remaining \<ge> minClipLength p then
           (case TimeRange_new (clip_start clip) (clip_start clip + remaining) of
              None \<Rightarrow> None
            | Some r \<Rightarrow> Some (trimmed @ [withAdjustedRange clip r]))
         else Some trimmed))"

definition totalDurationOf :: "Clip list \<Rightarrow> real" where
  "totalDurationOf clips = fold (\<lambda>c s. s + clip_duration c) clips 0"

definition trimToTargetDuration :: "CompositionPlanner \<Rightarrow> Clip list \<Rightarrow> Clip list option" where
  "trimToTargetDuration p clips =
     (if clips = [] then Some clips
      else if totalDurationOf clips \<le> targetDuration p then Some clips
      else trimLoop p [] 0 clips)"

text \<open>
  The \<open>while\<close> loop of \<open>optimizePacing\<close> on the clips of \<open>high\<close> from \<open>hi\<close> on and
  of \<open>medium\<close> from \<open>mi\<close> on.
\<close>

fun pacingLoop :: "Clip list \<Rightarrow> Clip list \<Rightarrow> Clip list" where
  "pacingLoop [] [] = []"
| "pacingLoop (h # high) [] = h # pacingLoop high []"
| "pacingLoop [] (m # medium) = m # pacingLoop [] medium"
| "pacingLoop (h # high) (m # medium) = m # h # pacingLoop high medium"

definition optimizePacing :: "Clip list \<Rightarrow> Clip list" where
  "optimizePacing clips =
     (if length clips \<le> 2 then clips
      else
        (let high = filter (\<lambda>c. clip_actionIntensity c = ''very_high''
                                \<or> clip_actionIntensity c = ''high'') clips;
             medium = filter (\<lambda>c. clip_actionIntensity c = ''medium'') clips;
             low = filter (\<lambda>c. clip_actionIntensity c = ''low'') clips
         in (case high of
               [] \<Rightarrow> pacingLoop [] medium
             | h # high' \<Rightarrow> h # pacingLoop high' medium)
            @ take 2 low))"

text \<open>
  \<open>result.sort((a, b) => b.score.value - a.score.value)\<close>. When no score is NaN the
  comparison is consistent and the sort, being stable, is the one by descending score;
  when a score is NaN the comparison returns NaN for some pairs and the order is the
  engine's.
\<close>

definition descendingKey :: "Clip \<Rightarrow> real" where
  "descendingKey c = (case score_value (score c) of Some v \<Rightarrow> - v | None \<Rightarrow> 0)"

definition sortByScore :: "Engine \<Rightarrow> Clip list \<Rightarrow> Clip list" where
  "sortByScore eng cs =
     (if list_all (\<lambda>c. score_value (score c) \<noteq> None) cs then sort_key descendingKey cs
      else applyOrder (sortOrder eng (map (\<lambda>c. score_value (score c)) cs)) cs)"

definition optimizeClips ::
  "Engine \<Rightarrow> CompositionPlanner \<Rightarrow> Clip list \<Rightarrow> FrameAnalysis list \<Rightarrow> Clip list option" where
  "optimizeClips eng p clips analyses =
     do {
       result \<leftarrow> adjustClipLengths p (scoreClips eng p clips analyses);
       result \<leftarrow> trimToTargetDuration p (sortByScore eng result);
       Some (optimizePacing result)
     }"

text \<open>\<open>x >= y\<close> on numbers: false when either is NaN.\<close>

definition js_ge :: "JsNumber \<Rightarrow> JsNumber \<Rightarrow> bool" where
  "js_ge a b = (case (a, b) of (Some x, Some y) \<Rightarrow> x \<ge> y | _ \<Rightarrow> False)"

text \<open>
  \<open>clips.reduce((a, b) => a.score.value >= b.score.value ? a : b)\<close>: the first clip
  is the initial accumulator \<open>a\<close>.
\<close>

definition bestClip :: "Clip \<Rightarrow> Clip list \<Rightarrow> Clip" where
  "bestClip first rest =
     fold (\<lambda>b a. if js_ge (score_value (score a)) (score_value (score b)) then a else b)
       rest first"

text \<open>
  \<open>createHookIntro\<close>: the outer \<open>None\<close> is a thrown error, \<open>Some None\<close> is \<open>null\<close>.
  The hook is constructed without \<open>id\<close>, so it draws the UUID \<open>uuid\<close>.
\<close>

definition createHookIntro :: "string \<Rightarrow> Clip list \<Rightarrow> Clip option option" where
  "createHookIntro uuid clips =
     (case clips of
        [] \<Rightarrow> Some None
      | first # rest \<Rightarrow>
          (let best = bestClip first rest;
               mid = midpoint (timeRange best)
           in case TimeRange_new (max 0 (mid - 3/2)) (mid + 3/2) of
                None \<Rightarrow> None
              | Some r \<Rightarrow>
                  Some (Some (Clip_new uuid
                    \<lparr>timeRange = r, reason = ''hook'', score = score best,
                     clipType = ''hook'', label = ''HOOK'', priority = 0,
                     clip_actionIntensity = [], clip_id = [],
                     clip_metadata = [(''isHook'', True)]\<rparr>))))"

datatype EngagementCurve =
  NoClips
| Curve (avgScore: JsNumber) (scoreVariance: JsNumber) (peakMoment: int) (totalDuration: real)
    (clipCount: nat) (pacingScore: real)

definition calculatePacingScore :: "CompositionPlanner \<Rightarrow> Clip list \<Rightarrow> real" where
  "calculatePacingScore p clips =
     (if clips = [] then 0
      else (let durations = map clip_duration clips;
                avg = fold (\<lambda>v s. s + v) durations 0 / real (length durations);
                deviation = \<bar>avg - optimalPace p\<bar>
            in max 0 (100 - deviation * 10)))"

text \<open>Arithmetic on numbers: the result is NaN when an operand is.\<close>

definition js2 :: "(real \<Rightarrow> real \<Rightarrow> real) \<Rightarrow> JsNumber \<Rightarrow> JsNumber \<Rightarrow> JsNumber" where
  "js2 f a b = (case (a, b) of (Some x, Some y) \<Rightarrow> Some (f x y) | _ \<Rightarrow> None)"

definition js_sum :: "JsNumber list \<Rightarrow> JsNumber" where
  "js_sum arr = fold (\<lambda>v s. js2 (+) s v) arr (Some 0)"

text \<open>\<open>_variance\<close> on the scores.\<close>

definition js_variance :: "JsNumber list \<Rightarrow> JsNumber" where
  "js_variance arr =
     (if length arr < 2 then Some 0
      else (let mean = js2 (/) (js_sum arr) (Some (real (length arr)))
            in js2 (/) (fold (\<lambda>v s. js2 (+) s (js2 (\<lambda>x m. (x - m)\<^sup>2) v mean)) arr (Some 0))
                 (Some (real (length arr) - 1))))"

text \<open>
  \<open>arr.indexOf(v)\<close>: the first index holding a value strictly equal to \<open>v\<close>, and \<open>-1\<close>
  when there is none; NaN is equal to nothing.
\<close>

fun indexFrom :: "JsNumber list \<Rightarrow> JsNumber \<Rightarrow> int \<Rightarrow> int" where
  "indexFrom [] v i = -1"
| "indexFrom (x # xs) v i = (if x \<noteq> None \<and> x = v then i else indexFrom xs v (i + 1))"

definition indexOf :: "JsNumber list \<Rightarrow> JsNumber \<Rightarrow> int" where
  "indexOf arr v = indexFrom arr v 0"

definition analyzeEngagementCurve :: "CompositionPlanner \<Rightarrow> Clip list \<Rightarrow> EngagementCurve" where
  "analyzeEngagementCurve p clips =
     (case map (\<lambda>c. score_value (score c)) clips of
        [] \<Rightarrow> NoClips
      | s # ss \<Rightarrow>
          Curve (js2 (/) (js_sum (s # ss)) (Some (real (length (s # ss)))))
                (if length (s # ss) > 1 then js_variance (s # ss) else Some 0)
                (indexOf (s # ss) (fold (\<lambda>v m. js2 max m v) ss s))
                (totalDurationOf clips)
                (length clips)
                (calculatePacingScore p clips))"

section \<open>Clip scorer\<close>

definition suggestImprovements :: "Clip list \<Rightarrow> FrameAnalysis list \<Rightarrow> string list" where
  "suggestImprovements clips analyses =
     (let total = totalDurationOf clips;
          lowClips = length (filter (\<lambda>c. case score_value (score c) of
                                             Some v \<Rightarrow> v < 30 | None \<Rightarrow> False) clips);
          clipTypes = remdups (map clipType (filter (\<lambda>c. clipType c \<noteq> []) clips))
      in (if total > 300
          then [''Video is too long. Consider trimming to 3-5 minutes.''] else [])
       @ (if length clips > 15
          then [''Too many clips. Focus on the best highlights only.''] else [])
       @ (if total < 30
          then [''Video is very short. Consider including more clips.''] else [])
       @ (if real lowClips > real (length clips) * (3/10)
          then [''Many low-scoring clips detected. Consider raising the quality threshold.'']
          else [])
       @ (if length clipTypes < 2 \<and> length clips > 3
          then [''Low clip variety. Mix different highlight types for better pacing.'']
          else []))"

section \<open>Creative director\<close>

record DirectorConfig =
  cfg_minClipLength :: real
  cfg_maxClipLength :: real
  cfg_targetDuration :: real
  cfg_pacingVariation :: real

text \<open>The constructor: the effective configuration and the planner built from it.\<close>

definition CreativeDirector_config :: "DirectorConfig \<Rightarrow> DirectorConfig" where
  "CreativeDirector_config config =
     \<lparr>cfg_minClipLength = num_or (cfg_minClipLength config) 3,
      cfg_maxClipLength = num_or (cfg_maxClipLength config) 15,
      cfg_targetDuration = num_or (cfg_targetDuration config) 180,
      cfg_pacingVariation = num_or (cfg_pacingVariation config) (1/2)\<rparr>"

definition CreativeDirector_planner :: "DirectorConfig \<Rightarrow> CompositionPlanner" where
  "CreativeDirector_planner config =
     (let c = CreativeDirector_config config
      in CompositionPlanner_new
           \<lparr>targetDuration = cfg_targetDuration c, minClipLength = cfg_minClipLength c,
            maxClipLength = cfg_maxClipLength c, optimalPace = cfg_pacingVariation c * 10\<rparr>)"

text \<open>\<open>new CreativeDirector()\<close>, as the pipeline builds it: no field is given.\<close>

definition default_config :: DirectorConfig where
  "default_config =
     \<lparr>cfg_minClipLength = 0, cfg_maxClipLength = 0, cfg_targetDuration = 0,
      cfg_pacingVariation = 0\<rparr>"

record DirectorResult =
  clips :: "Clip list"
  hookClip :: "Clip option"
  engagementCurve :: EngagementCurve
  varietyAnalysis :: VarietyAnalysis
  suggestions :: "string list"
  multiEvents :: "MultiEvent list"
  clutchMoments :: "ClutchMoment list"
  momentumShifts :: "MomentumShift list"

text \<open>The number of clips the seeding loops construct, which is the number of UUIDs drawn.\<close>

definition seedCount :: "FrameAnalysis list \<Rightarrow> MultiEvent list \<Rightarrow> ClutchMoment list \<Rightarrow> nat" where
  "seedCount analyses mes cms =
     length mes + length cms + length (filter (\<lambda>a. score_ge (excitementScore a) 25) analyses)"

text \<open>
  \<open>direct\<close>, for a director built with \<open>config\<close>, run by the engine \<open>eng\<close>. \<open>rnd\<close> gives
  the successive values of \<open>crypto.randomUUID()\<close> during the call; \<open>None\<close> is a thrown
  error.
\<close>

definition direct ::
  "DirectorConfig \<Rightarrow> Engine \<Rightarrow> (nat \<Rightarrow> string) \<Rightarrow> FrameAnalysis list
   \<Rightarrow> DirectorResult option" where
  "direct config eng rnd analyses =
     (let p = CreativeDirector_planner config;
          enhanced = analyzeExcitementLevels eng analyses;
          mes = detectMultiEvents enhanced;
          cms = detectClutchMoments enhanced;
          shifts = analyzeMomentumShifts enhanced
      in do {
           highlights \<leftarrow> suggestHighlights rnd enhanced mes cms;
           optimized \<leftarrow> optimizeClips eng p highlights enhanced;
           hook \<leftarrow> createHookIntro (rnd (seedCount enhanced mes cms)) optimized;
           Some \<lparr>clips = optimized, hookClip = hook,
                 engagementCurve = analyzeEngagementCurve p optimized,
                 varietyAnalysis = analyzeVariety optimized,
                 suggestions = suggestImprovements optimized enhanced,
                 multiEvents = mes, clutchMoments = cms, momentumShifts = shifts\<rparr>
         })"

section \<open>Processing pipeline: clamping to the media duration\<close>

text \<open>
  The callback of \<open>directorResult.clips.map\<close> in \<open>run\<close>: \<open>Some None\<close> is \<open>null\<close>, the
  outer \<open>None\<close> a thrown error.
\<close>

definition clampClip :: "real \<Rightarrow> Clip \<Rightarrow> Clip option option" where
  "clampClip videoDuration c =
     (let endClamped = min (clip_end c) videoDuration;
          startClamped = min (clip_start c) (endClamped - 1/10)
      in if endClamped - startClamped < 1/2 then Some None
         else map_option (\<lambda>r. Some (withAdjustedRange c r))
                (TimeRange_new (max 0 startClamped) endClamped))"

definition clampClips :: "real \<Rightarrow> Clip list \<Rightarrow> Clip list option" where
  "clampClips videoDuration cs =
     map_option (List.map_filter (\<lambda>x. x)) (those (map (clampClip videoDuration) cs))"

definition clampHook :: "real \<Rightarrow> Clip option \<Rightarrow> Clip option option" where
  "clampHook videoDuration hook =
     (case hook of
        None \<Rightarrow> Some None
      | Some h \<Rightarrow>
          (let hookEnd = min (clip_end h) videoDuration;
               hookStart = min (clip_start h) (hookEnd - 1/10)
           in if hookEnd - hookStart < 1/2 then Some None
              else map_option (\<lambda>r. Some (withAdjustedRange h r))
                     (TimeRange_new (max 0 hookStart) hookEnd)))"

section \<open>HuggingFace client\<close>

subsection \<open>Thrown values\<close>

text \<open>
  What a \<open>catch\<close> receives: an \<open>Error\<close> object with its \<open>name\<close> and \<open>message\<close>, a truthy
  value without a \<open>message\<close> (such as the event \<open>FileReader.onerror\<close> rejects with),
  given by its \<open>String()\<close> rendering, or a falsy value such as \<open>undefined\<close>.
\<close>

datatype Thrown =
  ErrorObj (err_name: string) (err_message: string)
| Other (rendering: string)
| Undefined

text \<open>\<open>new Error(msg)\<close>.\<close>

definition Error :: "string \<Rightarrow> Thrown" where
  "Error msg = ErrorObj ''Error'' msg"

text \<open>\<open>String(err)\<close>; for an \<open>Error\<close> object this is \<open>Error.prototype.toString\<close>.\<close>

definition String_of :: "Thrown \<Rightarrow> string" where
  "String_of err =
     (case err of
        ErrorObj name msg \<Rightarrow>
          (if name = [] then msg else if msg = [] then name else name @ '': '' @ msg)
      | Other r \<Rightarrow> r
      | Undefined \<Rightarrow> ''undefined'')"

text \<open>\<open>(err && err.message) ? err.message : String(err || 'Unknown error')\<close>.\<close>

definition errMsgOf :: "Thrown \<Rightarrow> string" where
  "errMsgOf err =
     (case err of
        ErrorObj name msg \<Rightarrow> if msg \<noteq> [] then msg else String_of err
      | Other r \<Rightarrow> String_of err
      | Undefined \<Rightarrow> ''Unknown error'')"

text \<open>The message of a thrown value, when it has one.\<close>

definition exception_message :: "Thrown \<Rightarrow> string option" where
  "exception_message err = (case err of ErrorObj name msg \<Rightarrow> Some msg | _ \<Rightarrow> None)"

subsection \<open>Batch analysis\<close>

record Frame =
  blob :: string
  frame_timestamp :: real

text \<open>\<open>new FrameAnalysis({timestamp, metadata: {error: errMsg}})\<close>.\<close>

definition sentinel :: "real \<Rightarrow> string \<Rightarrow> FrameAnalysis" where
  "sentinel ts errMsg =
     FrameAnalysis_new (no_opts\<lparr>timestamp := ts, metadata := [(''error'', errMsg)]\<rparr>)"

definition metadata_error :: "FrameAnalysis \<Rightarrow> string option" where
  "metadata_error a = map_of (metadata a) ''error''"

text \<open>
  The loop of \<open>analyzeFramesBatch\<close> from frame \<open>i\<close> on. \<open>cancelledAt i\<close> is the value of
  \<open>this._cancelled\<close> when iteration \<open>i\<close> begins, and \<open>outcome i frame\<close> is how the promise
  \<open>this.analyzeFrame(frame.blob, frame.timestamp)\<close> of iteration \<open>i\<close> settles: \<open>Inr\<close> the
  analysis it resolves with, \<open>Inl\<close> the value it rejects with. Each promise writes its
  own slot \<open>results[i]\<close>, and all of them have settled when the array is returned, so
  the array is built here in index order. The progress callback is taken not to throw.
\<close>

fun batchLoop ::
  "(nat \<Rightarrow> bool) \<Rightarrow> (nat \<Rightarrow> Frame \<Rightarrow> Thrown + FrameAnalysis) \<Rightarrow> nat \<Rightarrow> Frame list
   \<Rightarrow> Thrown + FrameAnalysis list" where
  "batchLoop cancelledAt outcome i [] = Inr []"
| "batchLoop cancelledAt outcome i (frame # frames) =
     (if cancelledAt i then Inl (Error ''Analysis cancelled'')
      else
        (case batchLoop cancelledAt outcome (i + 1) frames of
           Inl e \<Rightarrow> Inl e
         | Inr results \<Rightarrow>
             Inr ((case outcome i frame of
                     Inr result \<Rightarrow> result
                   | Inl err \<Rightarrow> sentinel (frame_timestamp frame) (errMsgOf err))
                  # results)))"

definition analyzeFramesBatch ::
  "(nat \<Rightarrow> bool) \<Rightarrow> (nat \<Rightarrow> Frame \<Rightarrow> Thrown + FrameAnalysis) \<Rightarrow> Frame list
   \<Rightarrow> Thrown + FrameAnalysis list" where
  "analyzeFramesBatch cancelledAt outcome frames = batchLoop cancelledAt outcome 0 frames"

subsection \<open>Model fallback\<close>

text \<open>
  The observable effects of a request: the model each \<open>fetch\<close> is sent to and each
  \<open>setTimeout\<close> sleep with its delay in milliseconds, oldest first.
\<close>

datatype Event = Request string | Sleep nat

record HuggingFaceClient =
  models :: "string list"
  currentModelIndex :: nat
  maxRetries :: nat
  initialBackoff :: nat
  coldStartRetryDelay :: nat
  allModelsBackoff :: nat
  cancelled :: bool
  events :: "Event list"

definition HuggingFaceClient_new :: HuggingFaceClient where
  "HuggingFaceClient_new =
     \<lparr>models = [''Qwen/Qwen2.5-VL-7B-Instruct'',
                ''meta-llama/Llama-3.2-11B-Vision-Instruct'',
                ''mistralai/Mistral-Small-3.1-24B-Instruct-2503''],
      currentModelIndex = 0, maxRetries = 3, initialBackoff = 2000,
      coldStartRetryDelay = 20000, allModelsBackoff = 60000, cancelled = False,
      events = []\<rparr>"

text \<open>
  How one \<open>fetch\<close> ends: with an HTTP status and a text, which is the content of
  \<open>choices[0].message\<close> for a 2xx status (empty when absent) and the body otherwise; or
  by rejecting (\<open>fetch\<close> itself or \<open>resp.json()\<close>) with an error of a given name and
  message, \<open>TimeoutError\<close> being the name of the deadline's error.
\<close>

datatype Response = Http nat string | Rejects string string

definition getCurrentModel :: "HuggingFaceClient \<Rightarrow> string" where
  "getCurrentModel cl = models cl ! currentModelIndex cl"

definition rotateModel :: "HuggingFaceClient \<Rightarrow> HuggingFaceClient" where
  "rotateModel cl =
     cl\<lparr>currentModelIndex := (currentModelIndex cl + 1) mod length (models cl)\<rparr>"

definition sleep :: "nat \<Rightarrow> HuggingFaceClient \<Rightarrow> HuggingFaceClient" where
  "sleep ms cl = cl\<lparr>events := events cl @ [Sleep ms]\<rparr>"

text \<open>\<open>s.includes(sub)\<close>.\<close>

fun str_includes :: "string \<Rightarrow> string \<Rightarrow> bool" where
  "str_includes [] sub = (sub = [])"
| "str_includes (c # s) sub = (take (length sub) (c # s) = sub \<or> str_includes s sub)"

text \<open>
  One iteration either ends the call (\<open>Done\<close>: a returned \<open>{text, model}\<close> or a thrown
  value) or continues with new values of \<open>modelsTriedInRound\<close> and \<open>lastError\<close>.
\<close>

datatype Step =
  Done "Thrown + string \<times> string" HuggingFaceClient
| Next nat Thrown HuggingFaceClient

text \<open>The \<open>catch\<close> block of the loop body.\<close>

definition catchBlock ::
  "nat \<Rightarrow> nat \<Rightarrow> string \<Rightarrow> Thrown \<Rightarrow> nat \<Rightarrow> HuggingFaceClient \<Rightarrow> Step" where
  "catchBlock attempt totalModels model err modelsTriedInRound cl =
     (if (case err of ErrorObj name msg \<Rightarrow> name = ''TimeoutError'' | _ \<Rightarrow> False) then
        Next modelsTriedInRound
          (Error (''Request to '' @ model @ '' timed out (cold start may take longer)''))
          (rotateModel cl)
      else if (case err of
                 ErrorObj name msg \<Rightarrow> str_includes msg ''Invalid HuggingFace API token''
               | _ \<Rightarrow> False) then
        Done (Inl err) cl
      else
        Next modelsTriedInRound err
          (sleep (initialBackoff cl * 2 ^ (attempt div totalModels)) cl))"

text \<open>The loop body for one \<open>attempt\<close>, after the cancellation check.\<close>

definition attemptStep ::
  "(nat \<Rightarrow> string \<Rightarrow> Response) \<Rightarrow> nat \<Rightarrow> nat \<Rightarrow> nat \<Rightarrow> Thrown \<Rightarrow> HuggingFaceClient
   \<Rightarrow> Step" where
  "attemptStep server attempt totalModels modelsTriedInRound lastError cl0 =
     (let model = getCurrentModel cl0;
          cl = cl0\<lparr>events := events cl0 @ [Request model]\<rparr>
      in case server attempt model of
           Rejects name msg \<Rightarrow>
             catchBlock attempt totalModels model (ErrorObj name msg) modelsTriedInRound cl
         | Http status text \<Rightarrow>
             if status = 401 then
               catchBlock attempt totalModels model
                 (Error ''Invalid HuggingFace API token. Please check your token in Settings.'')
                 modelsTriedInRound cl
             else if status = 429 then
               (let tried = modelsTriedInRound + 1;
                    cl = rotateModel cl;
                    err = Error (''Rate limited (429) on '' @ model)
                in if tried \<ge> totalModels
                   then Next 0 err (sleep (allModelsBackoff cl) cl)
                   else Next tried err cl)
             else if status = 503 then
               Next modelsTriedInRound (Error (''Model loading (503): '' @ model))
                 (sleep (coldStartRetryDelay cl) cl)
             else if \<not> (200 \<le> status \<and> status \<le> 299) then
               catchBlock attempt totalModels model
                 (Error (''HuggingFace API error '' @ show_nat status @ '': '' @ text))
                 modelsTriedInRound cl
             else if text = [] then
               catchBlock attempt totalModels model (Error ''Empty response from HuggingFace'')
                 modelsTriedInRound cl
             else Done (Inr (text, model)) cl)"

text \<open>
  The \<open>for\<close> loop of \<open>_sendWithFallback\<close>, with \<open>n\<close> iterations left before \<open>attempt\<close>
  reaches \<open>maxRetries * totalModels\<close>.
\<close>

fun fallbackLoop ::
  "(nat \<Rightarrow> string \<Rightarrow> Response) \<Rightarrow> nat \<Rightarrow> nat \<Rightarrow> nat \<Rightarrow> nat \<Rightarrow> Thrown \<Rightarrow> HuggingFaceClient
   \<Rightarrow> (Thrown + string \<times> string) \<times> HuggingFaceClient" where
  "fallbackLoop server 0 attempt totalModels modelsTriedInRound lastError cl =
     (Inl lastError, cl)"
| "fallbackLoop server (Suc n) attempt totalModels modelsTriedInRound lastError cl =
     (if cancelled cl then (Inl (Error ''Cancelled''), cl)
      else
        (case attemptStep server attempt totalModels modelsTriedInRound lastError cl of
           Done r cl' \<Rightarrow> (r, cl')
         | Next tried err cl' \<Rightarrow> fallbackLoop server n (attempt + 1) totalModels tried err cl'))"

definition sendWithFallback ::
  "(nat \<Rightarrow> string \<Rightarrow> Response) \<Rightarrow> HuggingFaceClient
   \<Rightarrow> (Thrown + string \<times> string) \<times> HuggingFaceClient" where
  "sendWithFallback server cl =
     (let totalModels = length (models cl)
      in fallbackLoop server (maxRetries cl * totalModels) 0 totalModels 0 Undefined cl)"

text \<open>
  \<open>analyzeFrame\<close>, for a frame whose blob could be read: the request, then the parsing
  of the text (\<open>extractJson\<close> with the coercions of \<open>fromApiResponse\<close>, a parameter).
\<close>

definition analyzeFrame ::
  "(nat \<Rightarrow> string \<Rightarrow> Response) \<Rightarrow> (string \<Rightarrow> FrameAnalysis) \<Rightarrow> HuggingFaceClient \<Rightarrow> Frame
   \<Rightarrow> (Thrown + FrameAnalysis) \<times> HuggingFaceClient" where
  "analyzeFrame server extractJson cl frame =
     (case sendWithFallback server cl of
        (Inl err, cl') \<Rightarrow> (Inl err, cl')
      | (Inr (text, model), cl') \<Rightarrow>
          (Inr (fromApiResponse (extractJson text) (frame_timestamp frame) model), cl'))"

section \<open>The specification's wording\<close>

subsection \<open>Excitement terms\<close>

text \<open>The four terms of the Phase-1 sum and the confidence weighting, as the specification lists them.\<close>

definition spec_kill_term :: "FrameAnalysis \<Rightarrow> real" where
  "spec_kill_term a =
     (if killLog a
      then 25 + (if killCount a \<ge> 3 then 15 else if killCount a \<ge> 2 then 8 else 0)
      else 0)"

definition spec_intensity_term :: "FrameAnalysis \<Rightarrow> real" where
  "spec_intensity_term a =
     (if actionIntensity a = ''very_high'' then 25
      else if actionIntensity a = ''high'' then 18
      else if actionIntensity a = ''medium'' then 10
      else 0)"

definition spec_status_term :: "FrameAnalysis \<Rightarrow> real" where
  "spec_status_term a =
     (if matchStatus a = ''victory'' then 10
      else if matchStatus a = ''clutch'' then 20
      else if matchStatus a = ''overtime'' then 12
      else if matchStatus a = ''defeat'' then -5
      else 0)"

definition spec_enemy_term :: "FrameAnalysis \<Rightarrow> real" where
  "spec_enemy_term a =
     (if enemyVisible a then 10 + (if enemyCount a \<ge> 3 then 5 else 0) else 0)"

definition spec_total :: "FrameAnalysis \<Rightarrow> real" where
  "spec_total a =
     spec_kill_term a + spec_intensity_term a + spec_status_term a + spec_enemy_term a"

text \<open>Scenario S1.\<close>

definition scenario_S1 :: FrameAnalysis where
  "scenario_S1 =
     no_opts\<lparr>killLog := True, killCount := 3, actionIntensity := ''high'',
             matchStatus := ''clutch'', enemyVisible := True, enemyCount := 3,
             confidence := 1\<rparr>"

text \<open>
  A key that reads a table as intended: one of the table's own keys, or a name that no
  inherited member has.
\<close>

definition plain_key :: "Engine \<Rightarrow> (string \<times> int) list \<Rightarrow> string \<Rightarrow> bool" where
  "plain_key eng table k \<longleftrightarrow> map_of table k \<noteq> None \<or> inherited eng k = None"

text \<open>Scenario S1 with an action intensity that names an inherited member.\<close>

definition inherited_key_frame :: FrameAnalysis where
  "inherited_key_frame = scenario_S1\<lparr>actionIntensity := ''constructor''\<rparr>"

subsection \<open>Well-formed ranges and scenario S3\<close>

text \<open>What the \<open>TimeRange\<close> constructor guarantees of every object it returns.\<close>

definition range_ok :: "TimeRange \<Rightarrow> bool" where
  "range_ok r \<longleftrightarrow> 0 \<le> startSeconds r \<and> startSeconds r < endSeconds r"

definition clip_ok :: "Clip \<Rightarrow> bool" where
  "clip_ok c \<longleftrightarrow> range_ok (timeRange c)"

text \<open>A clip with a range, a priority and a label, built by the constructor.\<close>

definition mk_clip :: "real \<Rightarrow> real \<Rightarrow> int \<Rightarrow> string \<Rightarrow> Clip" where
  "mk_clip s e prio name =
     Clip_new name
       \<lparr>timeRange = \<lparr>startSeconds = s, endSeconds = e\<rparr>, reason = [],
        score = QualityScore_new (Some 0), clipType = [], label = name, priority = prio,
        clip_actionIntensity = [], clip_id = [], clip_metadata = []\<rparr>"

text \<open>
  Merging, in the spec's words. A clip \<open>lies_within\<close> a merged clip when the merged range
  contains its range. The survivor of a merged clip \<open>m\<close> among the clips sorted by start
  is the clip within \<open>m\<close> of the highest priority, the first of them in the sorted order
  among equals; \<open>m\<close> is that clip itself when nothing was merged into it, and that clip
  with the range of \<open>m\<close> otherwise.
\<close>

definition lies_within :: "Clip \<Rightarrow> Clip \<Rightarrow> bool" where
  "lies_within c m \<longleftrightarrow> clip_start m \<le> clip_start c \<and> clip_end c \<le> clip_end m"

definition survivor_of :: "Clip list \<Rightarrow> Clip \<Rightarrow> bool" where
  "survivor_of ordered m \<longleftrightarrow>
     (\<exists>i\<in>{..<length ordered}.
        lies_within (ordered ! i) m
        \<and> (\<forall>j\<in>{..<length ordered}.
              lies_within (ordered ! j) m
              \<longrightarrow> priority (ordered ! j) \<le> priority (ordered ! i)
                  \<and> (priority (ordered ! j) = priority (ordered ! i) \<longrightarrow> i \<le> j))
        \<and> (if (\<forall>j\<in>{..<length ordered}. lies_within (ordered ! j) m \<longrightarrow> j = i)
            then m = ordered ! i
            else m = withAdjustedRange (ordered ! i) (timeRange m)))"

definition scenario_S3_A :: Clip where
  "scenario_S3_A = mk_clip 10 18 7 ''A''"

definition scenario_S3_B :: Clip where
  "scenario_S3_B = mk_clip 15 25 10 ''B''"

subsection \<open>Scenario S4\<close>

definition scenario_S4_planner :: CompositionPlanner where
  "scenario_S4_planner =
     CompositionPlanner_new
       \<lparr>targetDuration = 10, minClipLength = 3, maxClipLength = 0, optimalPace = 0\<rparr>"

text \<open>Three clips of durations 6, 5 and 4, in score order.\<close>

definition scenario_S4_clips :: "Clip list" where
  "scenario_S4_clips = [mk_clip 0 6 0 ''six'', mk_clip 20 25 0 ''five'', mk_clip 40 44 0 ''four'']"

text \<open>The head-slice of a clip: its first \<open>remaining\<close> seconds.\<close>

definition headSlice :: "Clip \<Rightarrow> real \<Rightarrow> Clip" where
  "headSlice c remaining =
     withAdjustedRange c \<lparr>startSeconds = clip_start c, endSeconds = clip_start c + remaining\<rparr>"

text \<open>A clip intersected with \<open>[0, videoDuration]\<close>.\<close>

definition intersected :: "real \<Rightarrow> Clip \<Rightarrow> Clip" where
  "intersected videoDuration c =
     withAdjustedRange c
       \<lparr>startSeconds = clip_start c, endSeconds = min (clip_end c) videoDuration\<rparr>"

subsection \<open>Batch slots\<close>

text \<open>What slot \<open>i\<close> of the batch result holds for the frame analysed there.\<close>

definition slot :: "(nat \<Rightarrow> Frame \<Rightarrow> Thrown + FrameAnalysis) \<Rightarrow> nat \<Rightarrow> Frame \<Rightarrow> FrameAnalysis" where
  "slot outcome i frame =
     (case outcome i frame of
        Inr result \<Rightarrow> result
      | Inl err \<Rightarrow> sentinel (frame_timestamp frame) (errMsgOf err))"

text \<open>
  A run that is never cancelled, and two analyses that fail: the first because the
  frame's blob cannot be read (\<open>_blobToBase64\<close> rejects with the reader's error event),
  the second with an \<open>Error\<close> whose message is empty.
\<close>

definition never_cancelled :: "nat \<Rightarrow> bool" where
  "never_cancelled i = False"

definition failing_outcome :: "nat \<Rightarrow> Frame \<Rightarrow> Thrown + FrameAnalysis" where
  "failing_outcome i frame =
     (if i = 0 then Inl (Other ''[object ProgressEvent]'') else Inl (ErrorObj ''Error'' []))"

definition two_frames :: "Frame list" where
  "two_frames = [\<lparr>blob = [], frame_timestamp = 0\<rparr>, \<lparr>blob = [], frame_timestamp = 10\<rparr>]"

text \<open>A batch whose first analysis succeeds and whose second fails with an empty response.\<close>

definition mixed_outcome :: "nat \<Rightarrow> Frame \<Rightarrow> Thrown + FrameAnalysis" where
  "mixed_outcome i frame =
     (if i = 0 then Inr (fromApiResponse no_opts (frame_timestamp frame) ''M'')
      else Inl (Error ''Empty response from HuggingFace''))"

subsection \<open>Fallback scenarios\<close>

text \<open>Scenario S6: three models, of which the first two answer 429 and the third 200.\<close>

definition scenario_S6_client :: HuggingFaceClient where
  "scenario_S6_client = HuggingFaceClient_new\<lparr>models := [''M1'', ''M2'', ''M3'']\<rparr>"

definition scenario_S6_server :: "nat \<Rightarrow> string \<Rightarrow> Response" where
  "scenario_S6_server attempt model =
     (if model = ''M3'' then Http 200 ''{}'' else Http 429 [])"

text \<open>
  A server that answers the attempts 0, 2 and 3 with 429, lets attempt 1 run into the
  deadline, and answers every later attempt with 200.
\<close>

definition timeout_server :: "nat \<Rightarrow> string \<Rightarrow> Response" where
  "timeout_server attempt model =
     (if attempt = 1 then Rejects ''TimeoutError'' ''The operation timed out.''
      else if attempt \<le> 3 then Http 429 []
      else Http 200 ''{}'')"

subsection \<open>Director scenarios\<close>

text \<open>
  An engine: the members of \<open>Object.prototype\<close> with the texts V8 gives them, and the
  original order for an array sorted with an inconsistent comparison.
\<close>

definition object_members :: "string list" where
  "object_members =
     [''__defineGetter__'', ''__defineSetter__'', ''hasOwnProperty'', ''__lookupGetter__'',
      ''__lookupSetter__'', ''isPrototypeOf'', ''propertyIsEnumerable'', ''toString'',
      ''valueOf'', ''toLocaleString'']"

definition sample_engine :: Engine where
  "sample_engine =
     \<lparr>inherited =
        (\<lambda>k. if k = ''constructor'' then Some ''function Object() { [native code] }''
             else if k = ''__proto__'' then Some ''[object Object]''
             else if k \<in> set object_members then Some (''function '' @ k @ ''() { [native code] }'')
             else None),
      sortOrder = (\<lambda>keys. [0..<length keys])\<rparr>"

text \<open>The UUIDs of a run: any sequence of non-empty strings.\<close>

definition uuids :: "nat \<Rightarrow> string" where
  "uuids k = ''uuid-'' @ show_nat k"

definition other_uuids :: "nat \<Rightarrow> string" where
  "other_uuids k = ''other-'' @ show_nat k"

text \<open>An exciting frame at a given time: a kill and high action (excitement 43).\<close>

definition kill_frame :: "real \<Rightarrow> FrameAnalysis" where
  "kill_frame ts =
     FrameAnalysis_new (no_opts\<lparr>timestamp := ts, killLog := True, actionIntensity := ''high''\<rparr>)"

text \<open>
  The score of a clip as a number, and the lists of clips whose scores all are numbers
  (none is NaN).
\<close>

definition scoreOf :: "Clip \<Rightarrow> real" where
  "scoreOf c = (case score_value (score c) of Some v \<Rightarrow> v | None \<Rightarrow> 0)"

definition numeric_scores :: "Clip list \<Rightarrow> bool" where
  "numeric_scores cs \<longleftrightarrow> list_all (\<lambda>c. score_value (score c) \<noteq> None) cs"

text \<open>Three clips of scores 5, NaN and 3.\<close>

definition unranked_clips :: "Clip list" where
  "unranked_clips =
     [(mk_clip 0 6 0 ''five'')\<lparr>score := QualityScore_new (Some 5)\<rparr>,
      (mk_clip 20 25 0 ''nan'')\<lparr>score := QualityScore_new None\<rparr>,
      (mk_clip 40 44 0 ''three'')\<lparr>score := QualityScore_new (Some 3)\<rparr>]"

text \<open>
  Two exciting frames, and between them a frame whose action intensity names an
  inherited member.
\<close>

definition inherited_key_run :: "FrameAnalysis list" where
  "inherited_key_run =
     [kill_frame 0, kill_frame 20,
      FrameAnalysis_new (no_opts\<lparr>timestamp := 41/2, actionIntensity := ''constructor''\<rparr>)]"

text \<open>\<open>new CreativeDirector({targetDuration: 2, minClipLength: 1})\<close>.\<close>

definition short_config :: DirectorConfig where
  "short_config = default_config\<lparr>cfg_targetDuration := 2, cfg_minClipLength := 1\<rparr>"

subsection \<open>Outputs up to clip ids\<close>

text \<open>A clip, and a director result, with the randomly drawn ids blanked out.\<close>

definition strip_id :: "Clip \<Rightarrow> Clip" where
  "strip_id c = c\<lparr>clip_id := []\<rparr>"

definition strip_ids :: "DirectorResult \<Rightarrow> DirectorResult" where
  "strip_ids res =
     res\<lparr>clips := map strip_id (clips res), hookClip := map_option strip_id (hookClip res)\<rparr>"

text \<open>The record \<open>direct\<close> returns, given the enhanced analyses, the clips and the hook.\<close>

definition resultOf ::
  "CompositionPlanner \<Rightarrow> FrameAnalysis list \<Rightarrow> Clip list \<Rightarrow> Clip option \<Rightarrow> DirectorResult" where
  "resultOf p enhanced optimized hook =
     \<lparr>clips = optimized, hookClip = hook,
      engagementCurve = analyzeEngagementCurve p optimized,
      varietyAnalysis = analyzeVariety optimized,
      suggestions = suggestImprovements optimized enhanced,
      multiEvents = detectMultiEvents enhanced,
      clutchMoments = detectClutchMoments enhanced,
      momentumShifts = analyzeMomentumShifts enhanced\<rparr>"

section \<open>Properties\<close>

subsection \<open>Excitement scoring\<close>

lemmas spec_terms =
  spec_total_def spec_kill_term_def spec_enemy_term_def spec_status_term_def
  spec_intensity_term_def

lemma killBlock_spec: "killBlock a = N k \<Longrightarrow> real_of_int k = spec_kill_term a"
  by (auto simp: killBlock_def Let_def plusNum_def spec_kill_term_def split: if_splits)

lemma killBlock_N: "\<exists>k. killBlock a = N k"
  by (simp add: killBlock_def Let_def plusNum_def)

lemma plusMember_intensity:
  assumes "plain_key eng intensityMap (actionIntensity a)"
  shows "\<exists>v. plusMember (N n) (getMember eng intensityMap (actionIntensity a)) = N (n + v)
             \<and> real_of_int v = spec_intensity_term a"
  using assms
  by (auto simp: plain_key_def getMember_def plusMember_def plusNum_def intensityMap_def
      spec_intensity_term_def split: if_splits)

lemma plusMember_status:
  assumes "plain_key eng statusMap (matchStatus a)"
  shows "\<exists>v. plusMember (N n) (getMember eng statusMap (matchStatus a)) = N (n + v)
             \<and> real_of_int v = spec_status_term a"
  using assms
  by (auto simp: plain_key_def getMember_def plusMember_def plusNum_def statusMap_def
      spec_status_term_def split: if_splits)

text \<open>
  On plain keys the statements after the kill block add the three other terms and weight
  the sum by the confidence.
\<close>

lemma afterKillBlock_plain:
  assumes "plain_key eng intensityMap (actionIntensity a)"
    and "plain_key eng statusMap (matchStatus a)"
  shows "afterKillBlock eng a (N n)
    = Num (if confidence a > 0
           then (real_of_int n + spec_intensity_term a + spec_status_term a + spec_enemy_term a)
                * (1/2 + 1/2 * confidence a)
           else real_of_int n + spec_intensity_term a + spec_status_term a + spec_enemy_term a)"
proof -
  obtain v where v: "plusMember (N n) (getMember eng intensityMap (actionIntensity a)) = N (n + v)"
    "real_of_int v = spec_intensity_term a"
    using plusMember_intensity [OF assms(1)] by blast
  obtain w where w: "plusMember (N (n + v)) (getMember eng statusMap (matchStatus a)) = N (n + v + w)"
    "real_of_int w = spec_status_term a"
    using plusMember_status [OF assms(2)] by blast
  show ?thesis
    using v(2) w(2)
    by (simp add: afterKillBlock_def Let_def v(1) w(1) plusNum_def spec_enemy_term_def)
qed

lemma excitementOf_plain:
  assumes "plain_key eng intensityMap (actionIntensity a)"
    and "plain_key eng statusMap (matchStatus a)"
  shows "excitementOf eng a
    = Num (if confidence a > 0 then spec_total a * (1/2 + 1/2 * confidence a)
           else spec_total a)"
proof -
  obtain k where k: "killBlock a = N k" using killBlock_N by blast
  show ?thesis
    using killBlock_spec [OF k]
    by (simp add: excitementOf_def k afterKillBlock_plain [OF assms] spec_total_def)
qed

lemma excitementScore_new:
  "excitementScore (FrameAnalysis_new a) = value_or_zero (excitementScore a)"
  by (simp add: FrameAnalysis_new_def)

lemma analyzeExcitementLevels_nth:
  "i < length analyses \<Longrightarrow>
   excitementScore (analyzeExcitementLevels eng analyses ! i)
   = value_or_zero (excitementOf eng (analyses ! i))"
  by (simp add: analyzeExcitementLevels_def excitementScore_new)

text \<open>
  For every analysis whose action intensity and match status are plain keys, the score
  written back is the sum of the four terms, weighted by \<open>0.5 + 0.5 * confidence\<close>
  exactly when \<open>confidence > 0\<close>. Scenario S1 gives 93.
\<close>

lemma excitement_score_plain_keys:
  assumes "i < length analyses"
    and "plain_key eng intensityMap (actionIntensity (analyses ! i))"
    and "plain_key eng statusMap (matchStatus (analyses ! i))"
  shows "excitementScore (analyzeExcitementLevels eng analyses ! i)
    = Num (if confidence (analyses ! i) > 0
           then spec_total (analyses ! i) * (1/2 + 1/2 * confidence (analyses ! i))
           else spec_total (analyses ! i))"
  by (simp add: analyzeExcitementLevels_nth [OF assms(1)] excitementOf_plain [OF assms(2,3)]
      value_or_zero_def)

lemmas excitement_eval =
  analyzeExcitementLevels_def excitementOf_def killBlock_def afterKillBlock_def
  plusNum_def plusMember_def getMember_def intensityMap_def statusMap_def
  FrameAnalysis_new_def value_or_zero_def or_default_def Let_def

lemma scenario_S1_score:
  "excitementScore (hd (analyzeExcitementLevels eng [scenario_S1])) = Num 93"
  by (simp add: excitement_eval scenario_S1_def no_opts_def)

text \<open>
  C2. The score is claimed to be the sum of the four terms for every analysis. The code
  at scenario S1 with the action intensity \<open>constructor\<close>: \<open>intensityMap[key]\<close> is the
  inherited constructor function, which is truthy, so \<open>|| 0\<close> does not apply and
  \<open>excitement\<close> becomes a string; multiplied by the confidence weight it is NaN, and 0 is
  written back. The four terms sum to 75 there, and with confidence 0 the string itself
  is written back.
\<close>

theorem inherited_member_breaks_excitement_sum:
  "excitementScore (hd (analyzeExcitementLevels sample_engine [inherited_key_frame])) = Num 0
   \<and> spec_total inherited_key_frame * (1/2 + 1/2 * confidence inherited_key_frame) = 75
   \<and> excitementScore
       (hd (analyzeExcitementLevels sample_engine [inherited_key_frame\<lparr>confidence := 0\<rparr>]))
     = Text ''40function Object() { [native code] }20105''"
  by code_simp

lemma killBlock_without_kill_log: "\<not> killLog a \<Longrightarrow> killBlock a = N 0"
  by (simp add: killBlock_def)

lemma killBlock_with_kill_log:
  "killLog a \<Longrightarrow>
   killBlock a = N (25 + (if killCount a \<ge> 3 then 15 else if killCount a \<ge> 2 then 8 else 0))"
  by (simp add: killBlock_def plusNum_def)

lemma afterKillBlock_killCount:
  "afterKillBlock eng (a\<lparr>killCount := k\<rparr>) acc = afterKillBlock eng a acc"
  by (simp add: afterKillBlock_def Let_def cong: Acc.case_cong)

text \<open>
  C10. For an analysis with \<open>killLog = false\<close>, whatever its \<open>killCount\<close>: the kill block
  leaves \<open>excitement\<close> at 0, so the score is what the later statements make of 0, and it
  is the score of the same analysis with any other \<open>killCount\<close>. On plain keys it is the
  sum of the action-intensity, match-status and enemy terms, weighted by the confidence.
\<close>

theorem no_kill_log_no_kill_excitement:
  assumes "\<not> killLog a"
  shows "killBlock (a\<lparr>killCount := k\<rparr>) = N 0
    \<and> spec_kill_term (a\<lparr>killCount := k\<rparr>) = 0
    \<and> excitementOf eng (a\<lparr>killCount := k\<rparr>) = afterKillBlock eng a (N 0)
    \<and> excitementOf eng (a\<lparr>killCount := k\<rparr>) = excitementOf eng a
    \<and> excitementScore (hd (analyzeExcitementLevels eng [a\<lparr>killCount := k\<rparr>]))
      = value_or_zero (afterKillBlock eng a (N 0))
    \<and> (plain_key eng intensityMap (actionIntensity a) \<and> plain_key eng statusMap (matchStatus a)
        \<longrightarrow> excitementScore (hd (analyzeExcitementLevels eng [a\<lparr>killCount := k\<rparr>]))
            = Num (if confidence a > 0
                   then (spec_intensity_term a + spec_status_term a + spec_enemy_term a)
                        * (1/2 + 1/2 * confidence a)
                   else spec_intensity_term a + spec_status_term a + spec_enemy_term a))"
proof -
  have kb: "killBlock (a\<lparr>killCount := k\<rparr>) = N 0" "killBlock a = N 0"
    using assms by (simp_all add: killBlock_def)
  have ex: "excitementOf eng (a\<lparr>killCount := k\<rparr>) = afterKillBlock eng a (N 0)"
    by (simp add: excitementOf_def kb(1) afterKillBlock_killCount)
  have ex': "excitementOf eng a = afterKillBlock eng a (N 0)"
    by (simp add: excitementOf_def kb(2))
  have sc: "excitementScore (hd (analyzeExcitementLevels eng [a\<lparr>killCount := k\<rparr>]))
      = value_or_zero (afterKillBlock eng a (N 0))"
    by (simp add: analyzeExcitementLevels_def excitementScore_new ex)
  have plain: "plain_key eng intensityMap (actionIntensity a)
        \<and> plain_key eng statusMap (matchStatus a)
        \<longrightarrow> excitementScore (hd (analyzeExcitementLevels eng [a\<lparr>killCount := k\<rparr>]))
            = Num (if confidence a > 0
                   then (spec_intensity_term a + spec_status_term a + spec_enemy_term a)
                        * (1/2 + 1/2 * confidence a)
                   else spec_intensity_term a + spec_status_term a + spec_enemy_term a)"
    by (simp add: sc afterKillBlock_plain value_or_zero_def)
  have kt: "spec_kill_term (a\<lparr>killCount := k\<rparr>) = 0"
    using assms by (simp add: spec_kill_term_def)
  show ?thesis by (intro conjI kb(1) kt ex sc plain) (simp add: ex ex')
qed

theorem no_kill_log_no_kill_excitement_witness:
  "\<not> killLog (scenario_S1\<lparr>killLog := False\<rparr>)
   \<and> excitementScore
       (hd (analyzeExcitementLevels sample_engine [scenario_S1\<lparr>killLog := False, killCount := 5\<rparr>]))
     = Num 53"
proof -
  have h: "\<not> killLog (scenario_S1\<lparr>killLog := False\<rparr>)" by simp
  have p1: "plain_key sample_engine intensityMap (actionIntensity (scenario_S1\<lparr>killLog := False\<rparr>))"
    by (simp add: plain_key_def intensityMap_def scenario_S1_def no_opts_def)
  have p2: "plain_key sample_engine statusMap (matchStatus (scenario_S1\<lparr>killLog := False\<rparr>))"
    by (simp add: plain_key_def statusMap_def scenario_S1_def no_opts_def)
  from no_kill_log_no_kill_excitement [OF h, of 5 sample_engine, THEN conjunct2,
      THEN conjunct2, THEN conjunct2, THEN conjunct2, THEN conjunct2, THEN mp,
      OF conjI [OF p1 p2]]
  show ?thesis
    by (simp add: spec_terms scenario_S1_def no_opts_def)
qed

subsection \<open>Merging overlapping clips\<close>

lemma TimeRange_new_ok:
  "0 \<le> s \<Longrightarrow> s < e \<Longrightarrow> TimeRange_new s e = Some \<lparr>startSeconds = s, endSeconds = e\<rparr>"
  by (simp add: TimeRange_new_def)

lemma TimeRange_new_range_ok: "TimeRange_new s e = Some r \<Longrightarrow> range_ok r"
  by (auto simp: TimeRange_new_def range_ok_def Let_def split: if_splits)

lemma timeRange_withAdjustedRange: "timeRange (withAdjustedRange c r) = r"
  by (simp add: withAdjustedRange_def Clip_new_def)

lemma priority_withAdjustedRange: "priority (withAdjustedRange c r) = priority c"
  by (simp add: withAdjustedRange_def Clip_new_def)

lemma clip_ok_withAdjustedRange: "clip_ok (withAdjustedRange c r) = range_ok r"
  by (simp add: clip_ok_def timeRange_withAdjustedRange)

lemma withAdjustedRange_again:
  "withAdjustedRange (withAdjustedRange c r) r' = withAdjustedRange c r'"
  by (simp add: withAdjustedRange_def Clip_new_def or_default_def)

lemma clip_ok_bounds:
  "clip_ok c \<Longrightarrow> 0 \<le> clip_start c \<and> clip_start c < clip_end c"
  by (simp add: clip_ok_def range_ok_def clip_start_def clip_end_def)

text \<open>One merging iteration: the constructor accepts the union of two well-formed ranges.\<close>

lemma mergeLoop_step:
  assumes "clip_ok lastClip" "clip_ok current" "clip_start current \<le> clip_end lastClip"
  shows "mergeLoop front lastClip (current # rest)
    = mergeLoop front
        (withAdjustedRange (if priority lastClip \<ge> priority current then lastClip else current)
           \<lparr>startSeconds = min (clip_start lastClip) (clip_start current),
            endSeconds = max (clip_end lastClip) (clip_end current)\<rparr>) rest"
proof -
  have "0 \<le> min (clip_start lastClip) (clip_start current)"
    using clip_ok_bounds [OF assms(1)] clip_ok_bounds [OF assms(2)] by simp
  moreover have "min (clip_start lastClip) (clip_start current)
                 < max (clip_end lastClip) (clip_end current)"
    using clip_ok_bounds [OF assms(1)] by (simp add: min_def max_def)
  ultimately have "TimeRange_new (min (clip_start lastClip) (clip_start current))
               (max (clip_end lastClip) (clip_end current))
             = Some \<lparr>startSeconds = min (clip_start lastClip) (clip_start current),
                     endSeconds = max (clip_end lastClip) (clip_end current)\<rparr>"
    by (rule TimeRange_new_ok)
  then show ?thesis using assms(3) by simp
qed

lemma survivor_of_iff:
  "survivor_of ordered m \<longleftrightarrow>
     (\<exists>i<length ordered.
        lies_within (ordered ! i) m
        \<and> (\<forall>j<length ordered.
              lies_within (ordered ! j) m
              \<longrightarrow> priority (ordered ! j) \<le> priority (ordered ! i)
                  \<and> (priority (ordered ! j) = priority (ordered ! i) \<longrightarrow> i \<le> j))
        \<and> (if (\<forall>j<length ordered. lies_within (ordered ! j) m \<longrightarrow> j = i)
            then m = ordered ! i
            else m = withAdjustedRange (ordered ! i) (timeRange m)))"
  unfolding survivor_of_def Bex_def Ball_def lessThan_iff by (rule refl)

text \<open>A further clip that does not lie within a merged clip leaves its survivor as it is.\<close>

lemma survivor_keep:
  assumes "survivor_of seen m" "\<not> lies_within current m"
  shows "survivor_of (seen @ [current]) m"
proof -
  obtain i where i: "i < length seen" "lies_within (seen ! i) m"
    and mx: "\<forall>j<length seen. lies_within (seen ! j) m
              \<longrightarrow> priority (seen ! j) \<le> priority (seen ! i)
                  \<and> (priority (seen ! j) = priority (seen ! i) \<longrightarrow> i \<le> j)"
    and eq: "if (\<forall>j<length seen. lies_within (seen ! j) m \<longrightarrow> j = i)
            then m = seen ! i else m = withAdjustedRange (seen ! i) (timeRange m)"
    using assms(1) unfolding survivor_of_iff by blast
  have a: "i < length (seen @ [current])" using i(1) by simp
  have b: "lies_within ((seen @ [current]) ! i) m" using i by (simp add: nth_append)
  have c: "\<forall>j<length (seen @ [current]). lies_within ((seen @ [current]) ! j) m
              \<longrightarrow> priority ((seen @ [current]) ! j) \<le> priority ((seen @ [current]) ! i)
                  \<and> (priority ((seen @ [current]) ! j) = priority ((seen @ [current]) ! i)
                      \<longrightarrow> i \<le> j)"
    using mx i(1) assms(2) by (auto simp: nth_append less_Suc_eq)
  have d: "(\<forall>j<length (seen @ [current]). lies_within ((seen @ [current]) ! j) m \<longrightarrow> j = i)
           \<longleftrightarrow> (\<forall>j<length seen. lies_within (seen ! j) m \<longrightarrow> j = i)"
    using assms(2) by (auto simp: nth_append less_Suc_eq)
  have e: "if (\<forall>j<length (seen @ [current]). lies_within ((seen @ [current]) ! j) m \<longrightarrow> j = i)
            then m = (seen @ [current]) ! i
            else m = withAdjustedRange ((seen @ [current]) ! i) (timeRange m)"
    unfolding d using eq i(1) by (simp add: nth_append)
  show ?thesis unfolding survivor_of_iff using a b c e by blast
qed

text \<open>A clip that starts a new merged clip is its own survivor.\<close>

lemma survivor_new:
  assumes "\<forall>c\<in>set seen. \<not> lies_within c current"
  shows "survivor_of (seen @ [current]) current"
proof -
  have a: "length seen < length (seen @ [current])" by simp
  have b: "lies_within ((seen @ [current]) ! length seen) current" by (simp add: lies_within_def)
  have only: "\<forall>j<length (seen @ [current]).
                lies_within ((seen @ [current]) ! j) current \<longrightarrow> j = length seen"
    using assms by (auto simp: nth_append less_Suc_eq)
  have c: "\<forall>j<length (seen @ [current]). lies_within ((seen @ [current]) ! j) current
              \<longrightarrow> priority ((seen @ [current]) ! j)
                    \<le> priority ((seen @ [current]) ! length seen)
                  \<and> (priority ((seen @ [current]) ! j)
                       = priority ((seen @ [current]) ! length seen) \<longrightarrow> length seen \<le> j)"
    using only by auto
  have e: "if (\<forall>j<length (seen @ [current]).
                 lies_within ((seen @ [current]) ! j) current \<longrightarrow> j = length seen)
            then current = (seen @ [current]) ! length seen
            else current
                 = withAdjustedRange ((seen @ [current]) ! length seen) (timeRange current)"
    using only by simp
  show ?thesis unfolding survivor_of_iff using a b c e by blast
qed

text \<open>
  A clip merged into the last merged clip: the survivor stays unless the new clip has a
  strictly higher priority.
\<close>

lemma survivor_merge:
  assumes s: "survivor_of seen lastClip"
    and same: "\<forall>j<length seen. lies_within (seen ! j) survivor = lies_within (seen ! j) lastClip"
    and cur: "lies_within current survivor"
    and eq: "survivor
             = withAdjustedRange
                 (if priority lastClip \<ge> priority current then lastClip else current) r"
  shows "survivor_of (seen @ [current]) survivor"
proof -
  let ?seen = "seen @ [current]"
  obtain i where i: "i < length seen" "lies_within (seen ! i) lastClip"
    and mx: "\<forall>j<length seen. lies_within (seen ! j) lastClip
              \<longrightarrow> priority (seen ! j) \<le> priority (seen ! i)
                  \<and> (priority (seen ! j) = priority (seen ! i) \<longrightarrow> i \<le> j)"
    and sv: "if (\<forall>j<length seen. lies_within (seen ! j) lastClip \<longrightarrow> j = i)
            then lastClip = seen ! i
            else lastClip = withAdjustedRange (seen ! i) (timeRange lastClip)"
    using s unfolding survivor_of_iff by blast
  have pl: "priority lastClip = priority (seen ! i)"
    using sv priority_withAdjustedRange [of "seen ! i" "timeRange lastClip"]
    by (auto split: if_splits)
  have wl: "withAdjustedRange lastClip r = withAdjustedRange (seen ! i) r"
    using sv withAdjustedRange_again [of "seen ! i" "timeRange lastClip" r]
    by (auto split: if_splits)
  have tr: "timeRange survivor = r" by (simp add: eq timeRange_withAdjustedRange)
  have wi: "lies_within (seen ! i) survivor" using same i by simp
  have nl: "?seen ! length seen = current" by simp
  show ?thesis
  proof (cases "priority lastClip \<ge> priority current")
    case True
    have a: "i < length ?seen" using i(1) by simp
    have b: "lies_within (?seen ! i) survivor" using wi i(1) by (simp add: nth_append)
    have c: "\<forall>j<length ?seen. lies_within (?seen ! j) survivor
              \<longrightarrow> priority (?seen ! j) \<le> priority (?seen ! i)
                  \<and> (priority (?seen ! j) = priority (?seen ! i) \<longrightarrow> i \<le> j)"
      using mx same i(1) True pl by (auto simp: nth_append less_Suc_eq)
    have d: "\<not> (\<forall>j<length ?seen. lies_within (?seen ! j) survivor \<longrightarrow> j = i)"
    proof
      assume "\<forall>j<length ?seen. lies_within (?seen ! j) survivor \<longrightarrow> j = i"
      then have "length seen = i" using cur nl by (metis a less_Suc_eq length_append_singleton)
      then show False using i(1) by simp
    qed
    have sv1: "survivor = withAdjustedRange (seen ! i) r" using True by (simp add: eq wl)
    have ni: "?seen ! i = seen ! i" using i(1) by (simp add: nth_append)
    have "survivor = withAdjustedRange (?seen ! i) (timeRange survivor)"
      unfolding ni tr by (rule sv1)
    then have e: "if (\<forall>j<length ?seen. lies_within (?seen ! j) survivor \<longrightarrow> j = i)
            then survivor = ?seen ! i
            else survivor = withAdjustedRange (?seen ! i) (timeRange survivor)"
      by (simp only: if_not_P [OF d])
    show ?thesis unfolding survivor_of_iff using a b c e by blast
  next
    case False
    have a: "length seen < length ?seen" by simp
    have b: "lies_within (?seen ! length seen) survivor" using cur by simp
    have c: "\<forall>j<length ?seen. lies_within (?seen ! j) survivor
              \<longrightarrow> priority (?seen ! j) \<le> priority (?seen ! length seen)
                  \<and> (priority (?seen ! j) = priority (?seen ! length seen)
                      \<longrightarrow> length seen \<le> j)"
    proof (intro allI impI)
      fix j assume j: "j < length ?seen" and w: "lies_within (?seen ! j) survivor"
      show "priority (?seen ! j) \<le> priority (?seen ! length seen)
            \<and> (priority (?seen ! j) = priority (?seen ! length seen) \<longrightarrow> length seen \<le> j)"
      proof (cases "j < length seen")
        case True
        then have "lies_within (seen ! j) lastClip" using w same by (simp add: nth_append)
        then have "priority (seen ! j) \<le> priority (seen ! i)" using mx True by blast
        then have "priority (?seen ! j) < priority current"
          using False pl True by (simp add: nth_append)
        then show ?thesis by simp
      next
        case False
        then have "j = length seen" using j by simp
        then show ?thesis by simp
      qed
    qed
    have d: "\<not> (\<forall>j<length ?seen. lies_within (?seen ! j) survivor \<longrightarrow> j = length seen)"
    proof
      assume h: "\<forall>j<length ?seen. lies_within (?seen ! j) survivor \<longrightarrow> j = length seen"
      have "lies_within (?seen ! i) survivor" using wi i(1) by (simp add: nth_append)
      moreover have "i < length ?seen" using i(1) by simp
      ultimately have "i = length seen" using h by blast
      then show False using i(1) by simp
    qed
    have sv1: "survivor = withAdjustedRange current r" using False by (simp add: eq)
    have "survivor = withAdjustedRange (?seen ! length seen) (timeRange survivor)"
      unfolding nl tr by (rule sv1)
    then have e: "if (\<forall>j<length ?seen. lies_within (?seen ! j) survivor \<longrightarrow> j = length seen)
            then survivor = ?seen ! length seen
            else survivor = withAdjustedRange (?seen ! length seen) (timeRange survivor)"
      by (simp only: if_not_P [OF d])
    show ?thesis unfolding survivor_of_iff using a b c e by blast
  qed
qed

lemma lies_within_refl: "lies_within c c"
  by (simp add: lies_within_def)

text \<open>
  The loop invariant, over the clips \<open>seen\<close> so far: the merged clips are well-formed
  and strictly separated, no clip still to come starts before the last of them, every
  clip seen lies within a merged clip, every point of a merged range lies in the range
  of a clip seen, the two ends of a merged range are ends of clips seen, and every merged
  clip is the survivor of the clips seen within it.
\<close>

lemma mergeLoop_inv:
  assumes ok: "clip_ok lastClip" "list_all clip_ok rest" "list_all clip_ok front"
      "list_all clip_ok seen"
    and srt: "sorted (map clip_start rest)"
    and le: "\<forall>c\<in>set rest. clip_start lastClip \<le> clip_start c"
    and sep: "sorted_wrt (\<lambda>a b. clip_end a < clip_start b) (front @ [lastClip])"
    and cov: "\<forall>c\<in>set seen. \<exists>m\<in>set (front @ [lastClip]). lies_within c m"
    and gap: "\<forall>m\<in>set (front @ [lastClip]). \<forall>t. clip_start m \<le> t \<and> t \<le> clip_end m
                \<longrightarrow> (\<exists>c\<in>set seen. clip_start c \<le> t \<and> t \<le> clip_end c)"
    and ends: "\<forall>m\<in>set (front @ [lastClip]).
                (\<exists>c\<in>set seen. clip_start c = clip_start m)
                \<and> (\<exists>c\<in>set seen. clip_end c = clip_end m)"
    and surv: "\<forall>m\<in>set (front @ [lastClip]). survivor_of seen m"
  shows "\<exists>merged. mergeLoop front lastClip rest = Some merged \<and> list_all clip_ok merged
           \<and> sorted_wrt (\<lambda>a b. clip_end a < clip_start b) merged
           \<and> (\<forall>c\<in>set (seen @ rest). \<exists>m\<in>set merged. lies_within c m)
           \<and> (\<forall>m\<in>set merged. \<forall>t. clip_start m \<le> t \<and> t \<le> clip_end m
                \<longrightarrow> (\<exists>c\<in>set (seen @ rest). clip_start c \<le> t \<and> t \<le> clip_end c))
           \<and> (\<forall>m\<in>set merged.
                (\<exists>c\<in>set (seen @ rest). clip_start c = clip_start m)
                \<and> (\<exists>c\<in>set (seen @ rest). clip_end c = clip_end m))
           \<and> (\<forall>m\<in>set merged. survivor_of (seen @ rest) m)"
  using assms
proof (induction rest arbitrary: front lastClip seen)
  case Nil
  then show ?case by simp
next
  case (Cons current rest)
  note okl = Cons.prems(1) and okf = Cons.prems(3) and oks = Cons.prems(4)
    and sep = Cons.prems(7) and cov = Cons.prems(8) and gap = Cons.prems(9)
    and ends = Cons.prems(10) and surv = Cons.prems(11)
  have le: "clip_start lastClip \<le> clip_start current" using Cons.prems(6) by simp
  have okc: "clip_ok current" and okr: "list_all clip_ok rest" using Cons.prems(2) by simp_all
  have srt: "sorted (map clip_start rest)" using Cons.prems(5) by simp
  have cle: "\<forall>c\<in>set rest. clip_start current \<le> clip_start c" using Cons.prems(5) by simp
  have oks': "list_all clip_ok (seen @ [current])" using oks okc by simp
  have bl: "clip_start lastClip < clip_end lastClip" using clip_ok_bounds [OF okl] by simp
  have bc: "clip_start current < clip_end current" using clip_ok_bounds [OF okc] by simp
  have bs: "\<And>c. c \<in> set seen \<Longrightarrow> clip_start c < clip_end c"
    using oks clip_ok_bounds by (auto simp: list_all_iff)
  have fr: "\<And>m. m \<in> set front \<Longrightarrow> clip_end m < clip_start lastClip"
    using sep by (simp add: sorted_wrt_append)
  have app: "(seen @ [current]) @ rest = seen @ current # rest" by simp
  show ?case
  proof (cases "clip_start current \<le> clip_end lastClip")
    case True
    let ?r = "\<lparr>startSeconds = min (clip_start lastClip) (clip_start current),
               endSeconds = max (clip_end lastClip) (clip_end current)\<rparr>"
    let ?s = "withAdjustedRange
                (if priority lastClip \<ge> priority current then lastClip else current) ?r"
    have st: "clip_start ?s = clip_start lastClip"
      using le by (simp add: clip_start_def timeRange_withAdjustedRange)
    have en: "clip_end ?s = max (clip_end lastClip) (clip_end current)"
      by (simp add: clip_end_def timeRange_withAdjustedRange)
    have "range_ok ?r"
      using clip_ok_bounds [OF okl] clip_ok_bounds [OF okc] by (auto simp: range_ok_def)
    then have ok: "clip_ok ?s" by (simp add: clip_ok_withAdjustedRange)
    have sep': "sorted_wrt (\<lambda>a b. clip_end a < clip_start b) (front @ [?s])"
      using sep st by (simp add: sorted_wrt_append)
    have le': "\<forall>c\<in>set rest. clip_start ?s \<le> clip_start c"
      using Cons.prems(6) st by simp
    have up: "\<And>c. lies_within c lastClip \<Longrightarrow> lies_within c ?s"
      using st en by (auto simp: lies_within_def max_def)
    have cin: "lies_within current ?s"
      using st en le by (auto simp: lies_within_def max_def)
    have down: "\<And>c. c \<in> set seen \<Longrightarrow> lies_within c ?s \<Longrightarrow> lies_within c lastClip"
    proof -
      fix c assume c: "c \<in> set seen" and w: "lies_within c ?s"
      obtain m where m: "m \<in> set (front @ [lastClip])" "lies_within c m"
        using cov c by blast
      show "lies_within c lastClip"
      proof (cases "m = lastClip")
        case True
        then show ?thesis using m(2) by simp
      next
        case False
        then have "clip_end m < clip_start lastClip" using m(1) fr by simp
        then have "clip_start c < clip_start ?s"
          using m(2) bs [OF c] st by (simp add: lies_within_def)
        then show ?thesis using w by (simp add: lies_within_def)
      qed
    qed
    have cov': "\<forall>c\<in>set (seen @ [current]). \<exists>m\<in>set (front @ [?s]). lies_within c m"
    proof
      fix c assume "c \<in> set (seen @ [current])"
      then consider "c \<in> set seen" | "c = current" by auto
      then show "\<exists>m\<in>set (front @ [?s]). lies_within c m"
      proof cases
        case 1
        then obtain m where m: "m \<in> set (front @ [lastClip])" "lies_within c m"
          using cov by blast
        show ?thesis
        proof (cases "m = lastClip")
          case True
          then have "lies_within c ?s" using m(2) up by simp
          then show ?thesis by simp
        next
          case False
          then have "m \<in> set front" using m(1) by simp
          then show ?thesis using m(2) by auto
        qed
      next
        case 2
        then show ?thesis using cin by simp
      qed
    qed
    have gap': "\<forall>m\<in>set (front @ [?s]). \<forall>t. clip_start m \<le> t \<and> t \<le> clip_end m
                \<longrightarrow> (\<exists>c\<in>set (seen @ [current]). clip_start c \<le> t \<and> t \<le> clip_end c)"
    proof (intro ballI allI impI)
      fix m t assume m: "m \<in> set (front @ [?s])" and t: "clip_start m \<le> t \<and> t \<le> clip_end m"
      show "\<exists>c\<in>set (seen @ [current]). clip_start c \<le> t \<and> t \<le> clip_end c"
      proof (cases "m \<in> set front")
        case True
        then have "\<exists>c\<in>set seen. clip_start c \<le> t \<and> t \<le> clip_end c" using gap t by simp
        then show ?thesis by auto
      next
        case False
        then have ms: "m = ?s" using m by simp
        show ?thesis
        proof (cases "t \<le> clip_end lastClip")
          case True
          then have "clip_start lastClip \<le> t \<and> t \<le> clip_end lastClip"
            using t st unfolding ms by simp
          then have "\<exists>c\<in>set seen. clip_start c \<le> t \<and> t \<le> clip_end c" using gap by simp
          then show ?thesis by auto
        next
          case False
          then have "clip_start current \<le> t \<and> t \<le> clip_end current"
            using t en \<open>clip_start current \<le> clip_end lastClip\<close> unfolding ms
            by (auto simp: max_def split: if_splits)
          then show ?thesis by auto
        qed
      qed
    qed
    have ends': "\<forall>m\<in>set (front @ [?s]).
                (\<exists>c\<in>set (seen @ [current]). clip_start c = clip_start m)
                \<and> (\<exists>c\<in>set (seen @ [current]). clip_end c = clip_end m)"
    proof
      fix m assume m: "m \<in> set (front @ [?s])"
      show "(\<exists>c\<in>set (seen @ [current]). clip_start c = clip_start m)
                \<and> (\<exists>c\<in>set (seen @ [current]). clip_end c = clip_end m)"
      proof (cases "m \<in> set front")
        case True
        then have "(\<exists>c\<in>set seen. clip_start c = clip_start m)
                \<and> (\<exists>c\<in>set seen. clip_end c = clip_end m)" using ends by simp
        then show ?thesis by auto
      next
        case False
        then have ms: "m = ?s" using m by simp
        have old: "(\<exists>c\<in>set seen. clip_start c = clip_start lastClip)
                \<and> (\<exists>c\<in>set seen. clip_end c = clip_end lastClip)" using ends by simp
        have a: "\<exists>c\<in>set (seen @ [current]). clip_start c = clip_start ?s"
          using old st by auto
        have b: "\<exists>c\<in>set (seen @ [current]). clip_end c = clip_end ?s"
        proof (cases "clip_end lastClip \<le> clip_end current")
          case True
          then have "clip_end current = clip_end ?s" using en by (simp add: max_def)
          then show ?thesis by simp
        next
          case False
          then have "clip_end ?s = clip_end lastClip" using en by (simp add: max_def)
          then show ?thesis using old by auto
        qed
        show ?thesis unfolding ms using a b by blast
      qed
    qed
    have surv': "\<forall>m\<in>set (front @ [?s]). survivor_of (seen @ [current]) m"
    proof
      fix m assume m: "m \<in> set (front @ [?s])"
      show "survivor_of (seen @ [current]) m"
      proof (cases "m \<in> set front")
        case True
        then have "clip_end m < clip_end current" using fr [OF True] le bc by simp
        then have "\<not> lies_within current m" by (simp add: lies_within_def)
        moreover have "survivor_of seen m" using surv True by simp
        ultimately show ?thesis by (rule survivor_keep [rotated])
      next
        case False
        then have ms: "m = ?s" using m by simp
        have sl: "survivor_of seen lastClip" using surv by simp
        have same: "\<forall>j<length seen. lies_within (seen ! j) ?s = lies_within (seen ! j) lastClip"
          using up down by (meson nth_mem)
        show ?thesis unfolding ms using sl same cin by (rule survivor_merge) (rule refl)
      qed
    qed
    from Cons.IH [OF ok okr okf oks' srt le' sep' cov' gap' ends' surv']
    show ?thesis unfolding app using mergeLoop_step [OF okl okc True] by simp
  next
    case False
    have ok': "list_all clip_ok (front @ [lastClip])" using okl okf by simp
    have "\<forall>x\<in>set front. clip_end x < clip_start current"
      using fr le by fastforce
    then have sep':
      "sorted_wrt (\<lambda>a b. clip_end a < clip_start b) ((front @ [lastClip]) @ [current])"
      using sep False by (simp add: sorted_wrt_append)
    have before: "\<And>m. m \<in> set (front @ [lastClip]) \<Longrightarrow> clip_end m < clip_start current"
      using fr le False by fastforce
    have cov': "\<forall>c\<in>set (seen @ [current]).
                  \<exists>m\<in>set ((front @ [lastClip]) @ [current]). lies_within c m"
    proof
      fix c assume "c \<in> set (seen @ [current])"
      then consider "c \<in> set seen" | "c = current" by auto
      then show "\<exists>m\<in>set ((front @ [lastClip]) @ [current]). lies_within c m"
      proof cases
        case 1
        then obtain m where "m \<in> set (front @ [lastClip])" "lies_within c m"
          using cov by blast
        then show ?thesis by auto
      next
        case 2
        then show ?thesis by (simp add: lies_within_refl)
      qed
    qed
    have gap': "\<forall>m\<in>set ((front @ [lastClip]) @ [current]).
                \<forall>t. clip_start m \<le> t \<and> t \<le> clip_end m
                \<longrightarrow> (\<exists>c\<in>set (seen @ [current]). clip_start c \<le> t \<and> t \<le> clip_end c)"
    proof (intro ballI allI impI)
      fix m t assume m: "m \<in> set ((front @ [lastClip]) @ [current])"
        and t: "clip_start m \<le> t \<and> t \<le> clip_end m"
      show "\<exists>c\<in>set (seen @ [current]). clip_start c \<le> t \<and> t \<le> clip_end c"
      proof (cases "m \<in> set (front @ [lastClip])")
        case True
        then have "\<exists>c\<in>set seen. clip_start c \<le> t \<and> t \<le> clip_end c" using gap t by blast
        then show ?thesis by auto
      next
        case False
        then have "m = current" using m by simp
        then show ?thesis using t by simp
      qed
    qed
    have ends': "\<forall>m\<in>set ((front @ [lastClip]) @ [current]).
                (\<exists>c\<in>set (seen @ [current]). clip_start c = clip_start m)
                \<and> (\<exists>c\<in>set (seen @ [current]). clip_end c = clip_end m)"
    proof
      fix m assume m: "m \<in> set ((front @ [lastClip]) @ [current])"
      show "(\<exists>c\<in>set (seen @ [current]). clip_start c = clip_start m)
                \<and> (\<exists>c\<in>set (seen @ [current]). clip_end c = clip_end m)"
      proof (cases "m \<in> set (front @ [lastClip])")
        case True
        then have "(\<exists>c\<in>set seen. clip_start c = clip_start m)
                \<and> (\<exists>c\<in>set seen. clip_end c = clip_end m)" using ends by blast
        then show ?thesis by auto
      next
        case False
        then have "m = current" using m by simp
        then show ?thesis by simp
      qed
    qed
    have none: "\<forall>c\<in>set seen. \<not> lies_within c current"
    proof
      fix c assume c: "c \<in> set seen"
      obtain m where m: "m \<in> set (front @ [lastClip])" "lies_within c m"
        using cov c by blast
      have "clip_end c < clip_start current"
        using before [OF m(1)] m(2) by (simp add: lies_within_def)
      then have "clip_start c < clip_start current" using bs [OF c] by simp
      then show "\<not> lies_within c current" by (simp add: lies_within_def)
    qed
    have surv': "\<forall>m\<in>set ((front @ [lastClip]) @ [current]). survivor_of (seen @ [current]) m"
    proof
      fix m assume m: "m \<in> set ((front @ [lastClip]) @ [current])"
      show "survivor_of (seen @ [current]) m"
      proof (cases "m \<in> set (front @ [lastClip])")
        case True
        then have "clip_end m < clip_end current" using before [OF True] bc by simp
        then have "\<not> lies_within current m" by (simp add: lies_within_def)
        moreover have "survivor_of seen m" using surv True by blast
        ultimately show ?thesis by (rule survivor_keep [rotated])
      next
        case False
        then have "m = current" using m by simp
        then show ?thesis using survivor_new [OF none] by simp
      qed
    qed
    from Cons.IH [OF okc okr ok' oks' srt cle sep' cov' gap' ends' surv']
    show ?thesis unfolding app using False by simp
  qed
qed

lemma mergeOverlappingClips_char:
  assumes "list_all clip_ok cs"
  shows "\<exists>merged. mergeOverlappingClips cs = Some merged \<and> list_all clip_ok merged
           \<and> sorted_wrt (\<lambda>a b. clip_end a < clip_start b) merged
           \<and> (\<forall>c\<in>set cs. \<exists>m\<in>set merged. lies_within c m)
           \<and> (\<forall>m\<in>set merged. \<forall>t. clip_start m \<le> t \<and> t \<le> clip_end m
                \<longrightarrow> (\<exists>c\<in>set cs. clip_start c \<le> t \<and> t \<le> clip_end c))
           \<and> (\<forall>m\<in>set merged.
                (\<exists>c\<in>set cs. clip_start c = clip_start m)
                \<and> (\<exists>c\<in>set cs. clip_end c = clip_end m))
           \<and> (\<forall>m\<in>set merged. survivor_of (sort_key clip_start cs) m)"
proof (cases "sort_key clip_start cs")
  case Nil
  then have "cs = []" by (metis length_0_conv length_sort)
  then show ?thesis by (simp add: mergeOverlappingClips_def)
next
  case (Cons first rest)
  have set: "set ([first] @ rest) = set cs" using Cons [symmetric] by simp
  have srt: "sorted (map clip_start (first # rest))" using Cons [symmetric] by simp
  have ok: "clip_ok first" "list_all clip_ok rest"
    using assms set by (auto simp: list_all_iff)
  have s0: "survivor_of ([] @ [first]) first" by (rule survivor_new) simp
  have "\<exists>merged. mergeLoop [] first rest = Some merged \<and> list_all clip_ok merged
           \<and> sorted_wrt (\<lambda>a b. clip_end a < clip_start b) merged
           \<and> (\<forall>c\<in>set ([first] @ rest). \<exists>m\<in>set merged. lies_within c m)
           \<and> (\<forall>m\<in>set merged. \<forall>t. clip_start m \<le> t \<and> t \<le> clip_end m
                \<longrightarrow> (\<exists>c\<in>set ([first] @ rest). clip_start c \<le> t \<and> t \<le> clip_end c))
           \<and> (\<forall>m\<in>set merged.
                (\<exists>c\<in>set ([first] @ rest). clip_start c = clip_start m)
                \<and> (\<exists>c\<in>set ([first] @ rest). clip_end c = clip_end m))
           \<and> (\<forall>m\<in>set merged. survivor_of ([first] @ rest) m)"
    using ok srt s0 by (intro mergeLoop_inv) (auto simp: lies_within_refl)
  then show ?thesis unfolding set by (simp add: mergeOverlappingClips_def Cons)
qed

lemma mergeOverlappingClips_separated:
  assumes "list_all clip_ok cs"
  shows "\<exists>merged. mergeOverlappingClips cs = Some merged \<and> list_all clip_ok merged
           \<and> sorted_wrt (\<lambda>a b. clip_end a < clip_start b) merged"
  using mergeOverlappingClips_char [OF assms] by blast

lemma separated_sorted:
  assumes "list_all clip_ok xs" "sorted_wrt (\<lambda>a b. clip_end a < clip_start b) xs"
  shows "sorted (map clip_start xs)"
  using assms
proof (induction xs)
  case Nil
  then show ?case by simp
next
  case (Cons x xs)
  have "clip_start x < clip_end x" using Cons.prems(1) clip_ok_bounds [of x] by simp
  then have "\<forall>y\<in>set xs. clip_start x \<le> clip_start y"
    using Cons.prems(2) by fastforce
  then show ?case using Cons by simp
qed

lemmas clip_eval =
  mk_clip_def Clip_new_def or_default_def clip_start_def clip_end_def clip_duration_def
  duration_def midpoint_def TimeRange_new_def withAdjustedRange_def QualityScore_new_def
  clip_ok_def range_ok_def

text \<open>
  C1. For every list of well-formed clips, \<open>mergeOverlappingClips\<close> returns a list that
  is sorted by start and in which every later clip starts strictly after every earlier
  clip ends. The list returned is tied to the clips given: every clip given lies within
  a returned clip; every point of a returned range lies in the range of a clip given, and
  the two ends of a returned range are the start and the end of clips given, so the
  returned ranges are the unions of the chains of clips in which each starts no later
  than the end reached so far; and every returned clip is the survivor of the clips within
  it: the one of the highest priority, the first in the order of starts among equals,
  returned as it is when no other clip lies within it and with the returned range
  otherwise. In an iteration whose clip \<open>current\<close> starts no later than the end of the
  last surviving clip, the survivor is the one of the two with the higher priority, with
  the range from the smaller start to the larger end. Merging \<open>A = [10, 18]\<close> of
  priority 7 with \<open>B = [15, 25]\<close> of priority 10 gives \<open>B\<close> with the range \<open>[10, 25]\<close>.
\<close>

theorem merge_overlapping_clips_disjoint:
  assumes "list_all clip_ok cs"
    and "clip_ok lastClip" and "clip_ok current"
    and "clip_start current \<le> clip_end lastClip"
  shows "(\<exists>merged. mergeOverlappingClips cs = Some merged
            \<and> sorted (map clip_start merged)
            \<and> (\<forall>i j. i < j \<and> j < length merged
                  \<longrightarrow> clip_start (merged ! j) > clip_end (merged ! i))
            \<and> (\<forall>c\<in>set cs. \<exists>m\<in>set merged. lies_within c m)
            \<and> (\<forall>m\<in>set merged. \<forall>t. clip_start m \<le> t \<and> t \<le> clip_end m
                  \<longrightarrow> (\<exists>c\<in>set cs. clip_start c \<le> t \<and> t \<le> clip_end c))
            \<and> (\<forall>m\<in>set merged.
                  (\<exists>c\<in>set cs. clip_start c = clip_start m)
                  \<and> (\<exists>c\<in>set cs. clip_end c = clip_end m))
            \<and> (\<forall>m\<in>set merged. survivor_of (sort_key clip_start cs) m))
    \<and> (\<exists>survivor. mergeLoop front lastClip (current # rest) = mergeLoop front survivor rest
          \<and> priority survivor = max (priority lastClip) (priority current)
          \<and> timeRange survivor
            = \<lparr>startSeconds = min (clip_start lastClip) (clip_start current),
               endSeconds = max (clip_end lastClip) (clip_end current)\<rparr>
          \<and> (priority lastClip > priority current
               \<longrightarrow> survivor = withAdjustedRange lastClip (timeRange survivor))
          \<and> (priority current > priority lastClip
               \<longrightarrow> survivor = withAdjustedRange current (timeRange survivor))
          \<and> (survivor = withAdjustedRange lastClip (timeRange survivor)
               \<or> survivor = withAdjustedRange current (timeRange survivor)))
    \<and> mergeOverlappingClips [scenario_S3_A, scenario_S3_B]
        = Some [scenario_S3_B\<lparr>timeRange := \<lparr>startSeconds = 10, endSeconds = 25\<rparr>\<rparr>]"
proof -
  obtain merged where m: "mergeOverlappingClips cs = Some merged" "list_all clip_ok merged"
    "sorted_wrt (\<lambda>a b. clip_end a < clip_start b) merged"
    and cov: "\<forall>c\<in>set cs. \<exists>m\<in>set merged. lies_within c m"
    and gap: "\<forall>m\<in>set merged. \<forall>t. clip_start m \<le> t \<and> t \<le> clip_end m
                  \<longrightarrow> (\<exists>c\<in>set cs. clip_start c \<le> t \<and> t \<le> clip_end c)"
    and ends: "\<forall>m\<in>set merged.
                  (\<exists>c\<in>set cs. clip_start c = clip_start m)
                  \<and> (\<exists>c\<in>set cs. clip_end c = clip_end m)"
    and surv: "\<forall>m\<in>set merged. survivor_of (sort_key clip_start cs) m"
    using mergeOverlappingClips_char [OF assms(1)] by blast
  have srt: "sorted (map clip_start merged)" using m(2,3) by (rule separated_sorted)
  have sepr: "\<forall>i j. i < j \<and> j < length merged
                  \<longrightarrow> clip_start (merged ! j) > clip_end (merged ! i)"
    using m(3) by (simp add: sorted_wrt_iff_nth_less)
  have part1: "\<exists>merged. mergeOverlappingClips cs = Some merged
            \<and> sorted (map clip_start merged)
            \<and> (\<forall>i j. i < j \<and> j < length merged
                  \<longrightarrow> clip_start (merged ! j) > clip_end (merged ! i))
            \<and> (\<forall>c\<in>set cs. \<exists>m\<in>set merged. lies_within c m)
            \<and> (\<forall>m\<in>set merged. \<forall>t. clip_start m \<le> t \<and> t \<le> clip_end m
                  \<longrightarrow> (\<exists>c\<in>set cs. clip_start c \<le> t \<and> t \<le> clip_end c))
            \<and> (\<forall>m\<in>set merged.
                  (\<exists>c\<in>set cs. clip_start c = clip_start m)
                  \<and> (\<exists>c\<in>set cs. clip_end c = clip_end m))
            \<and> (\<forall>m\<in>set merged. survivor_of (sort_key clip_start cs) m)"
    by (rule exI [of _ merged]) (intro conjI m(1) srt sepr cov gap ends surv)
  let ?r = "\<lparr>startSeconds = min (clip_start lastClip) (clip_start current),
             endSeconds = max (clip_end lastClip) (clip_end current)\<rparr>"
  let ?s = "withAdjustedRange
              (if priority lastClip \<ge> priority current then lastClip else current) ?r"
  have "mergeLoop front lastClip (current # rest) = mergeLoop front ?s rest"
    using assms(2-4) by (rule mergeLoop_step)
  moreover have "priority ?s = max (priority lastClip) (priority current)"
    by (simp add: priority_withAdjustedRange)
  moreover have tr: "timeRange ?s = ?r" by (simp add: timeRange_withAdjustedRange)
  moreover have "priority lastClip > priority current
                 \<longrightarrow> ?s = withAdjustedRange lastClip (timeRange ?s)"
    by (simp add: timeRange_withAdjustedRange)
  moreover have "priority current > priority lastClip
                 \<longrightarrow> ?s = withAdjustedRange current (timeRange ?s)"
    by (simp add: timeRange_withAdjustedRange)
  moreover have "?s = withAdjustedRange lastClip (timeRange ?s)
                 \<or> ?s = withAdjustedRange current (timeRange ?s)"
    by (simp add: timeRange_withAdjustedRange)
  ultimately have part2: "\<exists>survivor.
          mergeLoop front lastClip (current # rest) = mergeLoop front survivor rest
          \<and> priority survivor = max (priority lastClip) (priority current)
          \<and> timeRange survivor
            = \<lparr>startSeconds = min (clip_start lastClip) (clip_start current),
               endSeconds = max (clip_end lastClip) (clip_end current)\<rparr>
          \<and> (priority lastClip > priority current
               \<longrightarrow> survivor = withAdjustedRange lastClip (timeRange survivor))
          \<and> (priority current > priority lastClip
               \<longrightarrow> survivor = withAdjustedRange current (timeRange survivor))
          \<and> (survivor = withAdjustedRange lastClip (timeRange survivor)
               \<or> survivor = withAdjustedRange current (timeRange survivor))"
    by blast
  have part3: "mergeOverlappingClips [scenario_S3_A, scenario_S3_B]
        = Some [scenario_S3_B\<lparr>timeRange := \<lparr>startSeconds = 10, endSeconds = 25\<rparr>\<rparr>]"
    by (simp add: mergeOverlappingClips_def scenario_S3_A_def scenario_S3_B_def clip_eval)
  show ?thesis by (intro conjI part1 part2 part3)
qed

theorem merge_overlapping_clips_disjoint_witness:
  "list_all clip_ok [scenario_S3_B, scenario_S3_A]
   \<and> clip_ok scenario_S3_A \<and> clip_ok scenario_S3_B
   \<and> clip_start scenario_S3_B \<le> clip_end scenario_S3_A
   \<and> (\<exists>merged. mergeOverlappingClips [scenario_S3_B, scenario_S3_A] = Some merged
         \<and> sorted (map clip_start merged)
         \<and> (\<forall>i j. i < j \<and> j < length merged
               \<longrightarrow> clip_start (merged ! j) > clip_end (merged ! i))
         \<and> (\<forall>c\<in>set [scenario_S3_B, scenario_S3_A]. \<exists>m\<in>set merged. lies_within c m)
         \<and> (\<forall>m\<in>set merged. \<forall>t. clip_start m \<le> t \<and> t \<le> clip_end m
               \<longrightarrow> (\<exists>c\<in>set [scenario_S3_B, scenario_S3_A].
                      clip_start c \<le> t \<and> t \<le> clip_end c))
         \<and> (\<forall>m\<in>set merged.
               (\<exists>c\<in>set [scenario_S3_B, scenario_S3_A]. clip_start c = clip_start m)
               \<and> (\<exists>c\<in>set [scenario_S3_B, scenario_S3_A]. clip_end c = clip_end m))
         \<and> (\<forall>m\<in>set merged.
               survivor_of (sort_key clip_start [scenario_S3_B, scenario_S3_A]) m))
   \<and> mergeOverlappingClips [scenario_S3_B, scenario_S3_A]
     = Some [scenario_S3_B\<lparr>timeRange := \<lparr>startSeconds = 10, endSeconds = 25\<rparr>\<rparr>]
   \<and> survivor_of [scenario_S3_A, scenario_S3_B]
       (scenario_S3_B\<lparr>timeRange := \<lparr>startSeconds = 10, endSeconds = 25\<rparr>\<rparr>)"
proof -
  have h1: "list_all clip_ok [scenario_S3_B, scenario_S3_A]"
    by (simp add: scenario_S3_A_def scenario_S3_B_def clip_eval)
  have h2: "clip_ok scenario_S3_A" by (simp add: scenario_S3_A_def clip_eval)
  have h3: "clip_ok scenario_S3_B" by (simp add: scenario_S3_B_def clip_eval)
  have h4: "clip_start scenario_S3_B \<le> clip_end scenario_S3_A"
    by (simp add: scenario_S3_A_def scenario_S3_B_def clip_eval)
  have ev: "mergeOverlappingClips [scenario_S3_B, scenario_S3_A]
     = Some [scenario_S3_B\<lparr>timeRange := \<lparr>startSeconds = 10, endSeconds = 25\<rparr>\<rparr>]"
    by (simp add: mergeOverlappingClips_def scenario_S3_A_def scenario_S3_B_def clip_eval)
  have so: "sort_key clip_start [scenario_S3_B, scenario_S3_A] = [scenario_S3_A, scenario_S3_B]"
    by (simp add: scenario_S3_A_def scenario_S3_B_def clip_eval)
  note t = merge_overlapping_clips_disjoint [OF h1 h2 h3 h4, of "[]" "[]", THEN conjunct1]
  have sv: "survivor_of [scenario_S3_A, scenario_S3_B]
       (scenario_S3_B\<lparr>timeRange := \<lparr>startSeconds = 10, endSeconds = 25\<rparr>\<rparr>)"
    using t unfolding ev so by simp
  show ?thesis by (intro conjI h1 h2 h3 h4 t ev sv)
qed

subsection \<open>Trimming to the target duration\<close>

lemma fold_add_sum: "fold (\<lambda>v s. s + f v) xs (a::real) = a + sum_list (map f xs)"
  by (induction xs arbitrary: a) simp_all

lemma totalDurationOf_sum: "totalDurationOf cs = sum_list (map clip_duration cs)"
  by (simp add: totalDurationOf_def fold_add_sum)

lemma clip_duration_withAdjustedRange: "clip_duration (withAdjustedRange c r) = duration r"
  by (simp add: clip_duration_def timeRange_withAdjustedRange)

lemma trimLoop_char:
  assumes "list_all clip_ok rest" "0 < minClipLength p"
    "targetDuration p < acc + totalDurationOf rest" "acc \<le> targetDuration p"
  shows "\<exists>k<length rest.
           acc + totalDurationOf (take k rest) \<le> targetDuration p
         \<and> targetDuration p < acc + totalDurationOf (take (Suc k) rest)
         \<and> trimLoop p trimmed acc rest
           = Some (trimmed @ take k rest
                   @ (if targetDuration p - (acc + totalDurationOf (take k rest)) \<ge> minClipLength p
                      then [headSlice (rest ! k)
                              (targetDuration p - (acc + totalDurationOf (take k rest)))]
                      else []))"
  using assms
proof (induction rest arbitrary: trimmed acc)
  case Nil
  then show ?case by (simp add: totalDurationOf_sum)
next
  case (Cons clip rest)
  have okc: "clip_ok clip" and okr: "list_all clip_ok rest" using Cons.prems(1) by simp_all
  show ?case
  proof (cases "acc + clip_duration clip \<le> targetDuration p")
    case True
    have gt: "targetDuration p < (acc + clip_duration clip) + totalDurationOf rest"
      using Cons.prems(3) by (simp add: totalDurationOf_sum)
    from Cons.IH [OF okr Cons.prems(2) gt True, of "trimmed @ [clip]"]
    obtain k where k: "k < length rest"
      "acc + clip_duration clip + totalDurationOf (take k rest) \<le> targetDuration p"
      "targetDuration p < acc + clip_duration clip + totalDurationOf (take (Suc k) rest)"
      "trimLoop p (trimmed @ [clip]) (acc + clip_duration clip) rest
         = Some ((trimmed @ [clip]) @ take k rest
             @ (if targetDuration p - (acc + clip_duration clip + totalDurationOf (take k rest))
                   \<ge> minClipLength p
                then [headSlice (rest ! k)
                       (targetDuration p - (acc + clip_duration clip + totalDurationOf (take k rest)))]
                else []))"
      by blast
    have "Suc k < length (clip # rest)" using k(1) by simp
    moreover have "acc + totalDurationOf (take (Suc k) (clip # rest)) \<le> targetDuration p"
      using k(2) by (simp add: totalDurationOf_sum)
    moreover have "targetDuration p < acc + totalDurationOf (take (Suc (Suc k)) (clip # rest))"
      using k(3) by (simp add: totalDurationOf_sum)
    moreover have "trimLoop p trimmed acc (clip # rest)
           = Some (trimmed @ take (Suc k) (clip # rest)
                   @ (if targetDuration p - (acc + totalDurationOf (take (Suc k) (clip # rest)))
                         \<ge> minClipLength p
                      then [headSlice ((clip # rest) ! Suc k)
                              (targetDuration p - (acc + totalDurationOf (take (Suc k) (clip # rest))))]
                      else []))"
      using True k(4) by (simp add: totalDurationOf_sum add.assoc)
    ultimately show ?thesis by blast
  next
    case False
    have b: "0 \<le> clip_start clip" using clip_ok_bounds [OF okc] by simp
    have "trimLoop p trimmed acc (clip # rest)
           = Some (trimmed @ take 0 (clip # rest)
                   @ (if targetDuration p - (acc + totalDurationOf (take 0 (clip # rest)))
                         \<ge> minClipLength p
                      then [headSlice ((clip # rest) ! 0)
                              (targetDuration p - (acc + totalDurationOf (take 0 (clip # rest))))]
                      else []))"
      using False b Cons.prems(2)
      by (simp add: totalDurationOf_sum Let_def TimeRange_new_ok headSlice_def)
    moreover have "acc + totalDurationOf (take 0 (clip # rest)) \<le> targetDuration p"
      using Cons.prems(4) by (simp add: totalDurationOf_sum)
    moreover have "targetDuration p < acc + totalDurationOf (take (Suc 0) (clip # rest))"
      using False by (simp add: totalDurationOf_sum)
    ultimately show ?thesis by blast
  qed
qed

lemma clip_duration_headSlice: "0 \<le> clip_start c \<Longrightarrow> clip_duration (headSlice c rem) = rem"
  by (simp add: headSlice_def clip_duration_withAdjustedRange duration_def)

lemma prefix_total_mono:
  assumes "list_all clip_ok cs" "j \<le> k"
  shows "totalDurationOf (take j cs) \<le> totalDurationOf (take k cs)"
proof -
  have nonneg: "\<And>xs. list_all clip_ok xs \<Longrightarrow> 0 \<le> sum_list (map clip_duration xs)"
  proof -
    fix xs show "list_all clip_ok xs \<Longrightarrow> 0 \<le> sum_list (map clip_duration xs)"
      by (induction xs)
         (auto simp: clip_duration_def duration_def clip_ok_def range_ok_def)
  qed
  have "take k cs = take j cs @ take (k - j) (drop j cs)"
    using assms(2) by (metis le_add_diff_inverse take_add)
  moreover have "list_all clip_ok (take (k - j) (drop j cs))"
    using assms(1) by (auto simp: list_all_iff dest: in_set_takeD in_set_dropD)
  ultimately show ?thesis
    using nonneg [of "take (k - j) (drop j cs)"]
    by (simp add: totalDurationOf_sum del: take_drop)
qed

text \<open>
  C3. For a list of well-formed clips whose total duration exceeds \<open>targetDuration\<close>
  (the planner having a positive \<open>minClipLength\<close> and a non-negative target),
  \<open>trimToTargetDuration\<close> admits whole the longest prefix whose accumulated duration
  stays within the target; of the first clip that would overflow it admits the
  head-slice \<open>[start, start + remaining]\<close> exactly when \<open>remaining \<ge> minClipLength\<close>;
  it admits nothing after it. The admitted total never exceeds \<open>targetDuration\<close>. With
  target 10, minimum 3 and durations 6, 5, 4: the first clip whole, four seconds of the
  second, and no third.
\<close>

theorem trim_to_target_duration_greedy:
  assumes "list_all clip_ok cs" and "0 < minClipLength p" and "0 \<le> targetDuration p"
    and "targetDuration p < totalDurationOf cs"
  shows "(\<exists>k trimmed. k < length cs \<and> trimToTargetDuration p cs = Some trimmed
           \<and> (\<forall>j\<le>k. totalDurationOf (take j cs) \<le> targetDuration p)
           \<and> targetDuration p < totalDurationOf (take (Suc k) cs)
           \<and> (minClipLength p \<le> targetDuration p - totalDurationOf (take k cs)
                \<longrightarrow> trimmed = take k cs
                      @ [headSlice (cs ! k) (targetDuration p - totalDurationOf (take k cs))])
           \<and> (\<not> minClipLength p \<le> targetDuration p - totalDurationOf (take k cs)
                \<longrightarrow> trimmed = take k cs)
           \<and> totalDurationOf trimmed \<le> targetDuration p)
    \<and> trimToTargetDuration scenario_S4_planner scenario_S4_clips
        = Some [scenario_S4_clips ! 0, headSlice (scenario_S4_clips ! 1) 4]"
proof -
  have ne: "cs \<noteq> []" using assms(3,4) by (auto simp: totalDurationOf_def)
  have gt: "targetDuration p < 0 + totalDurationOf cs" using assms(4) by simp
  from trimLoop_char [OF assms(1,2) gt assms(3), of "[]"]
  obtain k where k: "k < length cs" "totalDurationOf (take k cs) \<le> targetDuration p"
    "targetDuration p < totalDurationOf (take (Suc k) cs)"
    "trimLoop p [] 0 cs
       = Some (take k cs
           @ (if targetDuration p - totalDurationOf (take k cs) \<ge> minClipLength p
              then [headSlice (cs ! k) (targetDuration p - totalDurationOf (take k cs))]
              else []))"
    by auto
  let ?rem = "targetDuration p - totalDurationOf (take k cs)"
  let ?trimmed = "take k cs @ (if ?rem \<ge> minClipLength p then [headSlice (cs ! k) ?rem] else [])"
  have res: "trimToTargetDuration p cs = Some ?trimmed"
    using ne assms(4) k(4) by (simp add: trimToTargetDuration_def)
  have pre: "\<forall>j\<le>k. totalDurationOf (take j cs) \<le> targetDuration p"
    using prefix_total_mono [OF assms(1)] k(2) by (meson order_trans)
  have "clip_ok (cs ! k)" using assms(1) k(1) by (simp add: list_all_length)
  then have "clip_duration (headSlice (cs ! k) ?rem) = ?rem"
    using clip_ok_bounds [of "cs ! k"] by (simp add: clip_duration_headSlice)
  then have tot: "totalDurationOf ?trimmed \<le> targetDuration p"
    using k(2) by (simp add: totalDurationOf_sum)
  have s4: "trimToTargetDuration scenario_S4_planner scenario_S4_clips
        = Some [scenario_S4_clips ! 0, headSlice (scenario_S4_clips ! 1) 4]"
    by (simp add: trimToTargetDuration_def scenario_S4_planner_def scenario_S4_clips_def
        CompositionPlanner_new_def num_or_def totalDurationOf_def headSlice_def clip_eval)
  have "k < length cs \<and> trimToTargetDuration p cs = Some ?trimmed
           \<and> (\<forall>j\<le>k. totalDurationOf (take j cs) \<le> targetDuration p)
           \<and> targetDuration p < totalDurationOf (take (Suc k) cs)
           \<and> (minClipLength p \<le> ?rem \<longrightarrow> ?trimmed = take k cs @ [headSlice (cs ! k) ?rem])
           \<and> (\<not> minClipLength p \<le> ?rem \<longrightarrow> ?trimmed = take k cs)
           \<and> totalDurationOf ?trimmed \<le> targetDuration p"
    using k(1,3) res pre tot by simp
  then show ?thesis using s4 by blast
qed

theorem trim_to_target_duration_greedy_witness:
  "list_all clip_ok scenario_S4_clips \<and> 0 < minClipLength scenario_S4_planner
   \<and> 0 \<le> targetDuration scenario_S4_planner
   \<and> targetDuration scenario_S4_planner < totalDurationOf scenario_S4_clips
   \<and> (\<exists>trimmed. trimToTargetDuration scenario_S4_planner scenario_S4_clips = Some trimmed
         \<and> totalDurationOf trimmed \<le> 10)"
proof -
  have h1: "list_all clip_ok scenario_S4_clips"
    by (simp add: scenario_S4_clips_def clip_eval)
  have h2: "0 < minClipLength scenario_S4_planner"
    by (simp add: scenario_S4_planner_def CompositionPlanner_new_def num_or_def)
  have h3: "0 \<le> targetDuration scenario_S4_planner"
    by (simp add: scenario_S4_planner_def CompositionPlanner_new_def num_or_def)
  have h4: "targetDuration scenario_S4_planner < totalDurationOf scenario_S4_clips"
    by (simp add: scenario_S4_planner_def CompositionPlanner_new_def num_or_def
        scenario_S4_clips_def totalDurationOf_def clip_eval)
  have t: "targetDuration scenario_S4_planner = 10"
    by (simp add: scenario_S4_planner_def CompositionPlanner_new_def num_or_def)
  show ?thesis
    using trim_to_target_duration_greedy [OF h1 h2 h3 h4] h1 h2 h3 h4 unfolding t by blast
qed

subsection \<open>Clamping to the media duration\<close>

lemma those_map_Some:
  "(\<And>x. x \<in> set xs \<Longrightarrow> g x = Some (f x)) \<Longrightarrow> those (map g xs) = Some (map f xs)"
  by (induction xs) simp_all

lemma map_filter_if:
  "List.map_filter (\<lambda>x. x) (map (\<lambda>c. if P c then Some (h c) else None) cs) = map h (filter P cs)"
  by (induction cs) (simp_all add: List.map_filter_simps)

lemma clampClip_char:
  assumes "clip_ok c"
  shows "clampClip D c
    = Some (if 1/2 \<le> min (clip_end c) D - clip_start c then Some (intersected D c) else None)"
proof (cases "1/2 \<le> min (clip_end c) D - clip_start c")
  case True
  then have st: "min (clip_start c) (min (clip_end c) D - 1/10) = clip_start c" by arith
  have "0 \<le> clip_start c" using clip_ok_bounds [OF assms] by simp
  moreover have "clip_start c < min (clip_end c) D" using True by arith
  ultimately have "TimeRange_new (max 0 (clip_start c)) (min (clip_end c) D)
     = Some \<lparr>startSeconds = clip_start c, endSeconds = min (clip_end c) D\<rparr>"
    by (simp add: TimeRange_new_ok)
  then show ?thesis using True
    by (simp add: clampClip_def Let_def st intersected_def)
next
  case False
  then have "min (clip_end c) D - min (clip_start c) (min (clip_end c) D - 1/10) < 1/2"
    by arith
  then show ?thesis using False by (simp add: clampClip_def Let_def)
qed

lemma clampHook_clampClip: "clampHook D (Some h) = clampClip D h"
  by (simp add: clampHook_def clampClip_def)

lemma intersected_bounds:
  assumes "1/2 \<le> min (clip_end c) D - clip_start c"
  shows "clip_end (intersected D c) \<le> D \<and> 1/2 \<le> clip_duration (intersected D c)"
  using assms
  by (simp add: intersected_def clip_end_def clip_duration_def duration_def
      timeRange_withAdjustedRange)

lemma clampClips_char:
  assumes "list_all clip_ok cs"
  shows "clampClips D cs
    = Some (map (intersected D) (filter (\<lambda>c. 1/2 \<le> min (clip_end c) D - clip_start c) cs))"
proof -
  have "those (map (clampClip D) cs)
    = Some (map (\<lambda>c. if 1/2 \<le> min (clip_end c) D - clip_start c
                      then Some (intersected D c) else None) cs)"
    using assms by (intro those_map_Some) (simp add: list_all_iff clampClip_char)
  then show ?thesis by (simp add: clampClips_def map_filter_if)
qed

text \<open>
  C4. The clamping step of \<open>run\<close>, on the well-formed clips and hook the director
  returns: it throws nothing; it keeps, intersected with \<open>[0, videoDuration]\<close>, exactly
  the clips whose intersected duration is at least 0.5 seconds, and drops the others;
  every surviving clip ends no later than \<open>videoDuration\<close> and lasts at least 0.5
  seconds. The hook is treated in the same way and is eliminated when its intersected
  duration is below 0.5 seconds.
\<close>

theorem clamping_bounds_surviving_clips:
  assumes "list_all clip_ok cs" and "\<forall>h. hook = Some h \<longrightarrow> clip_ok h"
  shows "(\<exists>clamped. clampClips videoDuration cs = Some clamped
           \<and> clamped = map (intersected videoDuration)
                 (filter (\<lambda>c. 1/2 \<le> min (clip_end c) videoDuration - clip_start c) cs)
           \<and> (\<forall>c\<in>set clamped. clip_end c \<le> videoDuration \<and> 1/2 \<le> clip_duration c))
    \<and> (\<exists>hook'. clampHook videoDuration hook = Some hook'
           \<and> (\<forall>h'. hook' = Some h'
                 \<longrightarrow> clip_end h' \<le> videoDuration \<and> 1/2 \<le> clip_duration h')
           \<and> (\<forall>h. hook = Some h
                 \<longrightarrow> hook' = (if 1/2 \<le> min (clip_end h) videoDuration - clip_start h
                             then Some (intersected videoDuration h) else None)))"
proof -
  let ?keep = "\<lambda>c. 1/2 \<le> min (clip_end c) videoDuration - clip_start c"
  have "clampClips videoDuration cs = Some (map (intersected videoDuration) (filter ?keep cs))"
    using assms(1) by (rule clampClips_char)
  moreover have "\<forall>c\<in>set (map (intersected videoDuration) (filter ?keep cs)).
                   clip_end c \<le> videoDuration \<and> 1/2 \<le> clip_duration c"
    using intersected_bounds by auto
  ultimately have part1: "\<exists>clamped. clampClips videoDuration cs = Some clamped
           \<and> clamped = map (intersected videoDuration) (filter ?keep cs)
           \<and> (\<forall>c\<in>set clamped. clip_end c \<le> videoDuration \<and> 1/2 \<le> clip_duration c)"
    by blast
  have part2: "\<exists>hook'. clampHook videoDuration hook = Some hook'
           \<and> (\<forall>h'. hook' = Some h'
                 \<longrightarrow> clip_end h' \<le> videoDuration \<and> 1/2 \<le> clip_duration h')
           \<and> (\<forall>h. hook = Some h
                 \<longrightarrow> hook' = (if ?keep h then Some (intersected videoDuration h) else None))"
  proof (cases hook)
    case None
    then show ?thesis by (simp add: clampHook_def)
  next
    case (Some h)
    then have "clip_ok h" using assms(2) by simp
    then have "clampHook videoDuration hook
      = Some (if ?keep h then Some (intersected videoDuration h) else None)"
      using Some by (simp add: clampHook_clampClip clampClip_char)
    then show ?thesis using Some intersected_bounds [of h videoDuration] by auto
  qed
  show ?thesis using part1 part2 by blast
qed

theorem clamping_bounds_surviving_clips_witness:
  "list_all clip_ok scenario_S4_clips \<and> clip_ok (scenario_S4_clips ! 0)
   \<and> clampClips 5 scenario_S4_clips = Some [intersected 5 (scenario_S4_clips ! 0)]
   \<and> clampHook (1/4) (Some (scenario_S4_clips ! 0)) = Some None"
proof -
  have h1: "list_all clip_ok scenario_S4_clips"
    by (simp add: scenario_S4_clips_def clip_eval)
  have h2: "\<forall>h. Some (scenario_S4_clips ! 0) = Some h \<longrightarrow> clip_ok h"
    by (simp add: scenario_S4_clips_def clip_eval)
  have a: "clampClips 5 scenario_S4_clips = Some [intersected 5 (scenario_S4_clips ! 0)]"
    using clamping_bounds_surviving_clips [OF h1 h2, of 5]
    by (simp add: scenario_S4_clips_def clip_eval)
  have b: "clampHook (1/4) (Some (scenario_S4_clips ! 0)) = Some None"
    using clamping_bounds_surviving_clips [OF h1 h2, of "1/4"]
    by (simp add: scenario_S4_clips_def clip_eval)
  have h3: "clip_ok (scenario_S4_clips ! 0)"
    by (simp add: scenario_S4_clips_def clip_eval)
  show ?thesis using h1 h3 a b by blast
qed

subsection \<open>Batch analysis\<close>

lemma batchLoop_char:
  assumes "\<forall>j<length frames. \<not> cancelledAt (i + j)"
  shows "batchLoop cancelledAt outcome i frames
    = Inr (map (\<lambda>(j, f). slot outcome j f) (enumerate i frames))"
  using assms
proof (induction frames arbitrary: i)
  case Nil
  then show ?case by simp
next
  case (Cons frame frames)
  have "\<not> cancelledAt i" using Cons.prems by auto
  moreover have "\<forall>j<length frames. \<not> cancelledAt (Suc i + j)"
    using Cons.prems by auto
  ultimately show ?case using Cons.IH [of "Suc i"] by (simp add: slot_def)
qed

lemma metadata_error_sentinel: "metadata_error (sentinel ts msg) = Some msg"
  by (simp add: metadata_error_def sentinel_def FrameAnalysis_new_def)

lemma timestamp_sentinel: "timestamp (sentinel ts msg) = ts"
  by (simp add: sentinel_def FrameAnalysis_new_def)

lemma errMsgOf_message: "msg \<noteq> [] \<Longrightarrow> errMsgOf (ErrorObj name msg) = msg"
  by (simp add: errMsgOf_def)

text \<open>
  C5 (amended). When cancellation is never requested, \<open>analyzeFramesBatch\<close> returns a
  list as long as the input whose slot \<open>i\<close> belongs to frame \<open>i\<close>: the analysis itself
  when it succeeded, and otherwise a sentinel with the frame's timestamp, the batch
  going on with the remaining frames. The sentinel's \<open>metadata.error\<close> is the thrown
  value's message when it has a non-empty one; otherwise it is the string rendering of
  the thrown value (the name of an \<open>Error\<close> with an empty message), and
  \<open>Unknown error\<close> for a falsy value.
\<close>

theorem batch_keeps_every_slot:
  assumes "\<forall>i<length frames. \<not> cancelledAt i"
  shows "\<exists>results. analyzeFramesBatch cancelledAt outcome frames = Inr results
    \<and> length results = length frames
    \<and> (\<forall>i<length frames.
          (\<forall>r. outcome i (frames ! i) = Inr r \<longrightarrow> results ! i = r)
        \<and> (\<forall>e. outcome i (frames ! i) = Inl e \<longrightarrow>
               results ! i = sentinel (frame_timestamp (frames ! i)) (errMsgOf e)
             \<and> timestamp (results ! i) = frame_timestamp (frames ! i)
             \<and> metadata_error (results ! i) = Some (errMsgOf e)
             \<and> (\<forall>name msg. e = ErrorObj name msg \<and> msg \<noteq> []
                   \<longrightarrow> metadata_error (results ! i) = Some msg)
             \<and> (\<forall>name. e = ErrorObj name [] \<longrightarrow> metadata_error (results ! i) = Some name)
             \<and> (\<forall>r. e = Other r \<longrightarrow> metadata_error (results ! i) = Some r)
             \<and> (e = Undefined \<longrightarrow> metadata_error (results ! i) = Some ''Unknown error'')))"
proof -
  let ?results = "map (\<lambda>(j, f). slot outcome j f) (enumerate 0 frames)"
  have res: "analyzeFramesBatch cancelledAt outcome frames = Inr ?results"
    using assms by (simp add: analyzeFramesBatch_def batchLoop_char)
  have nth: "\<And>i. i < length frames \<Longrightarrow> ?results ! i = slot outcome i (frames ! i)"
    by (simp add: nth_enumerate_eq)
  have len: "length ?results = length frames" by simp
  have body: "\<forall>i<length frames.
          (\<forall>r. outcome i (frames ! i) = Inr r \<longrightarrow> ?results ! i = r)
        \<and> (\<forall>e. outcome i (frames ! i) = Inl e \<longrightarrow>
               ?results ! i = sentinel (frame_timestamp (frames ! i)) (errMsgOf e)
             \<and> timestamp (?results ! i) = frame_timestamp (frames ! i)
             \<and> metadata_error (?results ! i) = Some (errMsgOf e)
             \<and> (\<forall>name msg. e = ErrorObj name msg \<and> msg \<noteq> []
                   \<longrightarrow> metadata_error (?results ! i) = Some msg)
             \<and> (\<forall>name. e = ErrorObj name [] \<longrightarrow> metadata_error (?results ! i) = Some name)
             \<and> (\<forall>r. e = Other r \<longrightarrow> metadata_error (?results ! i) = Some r)
             \<and> (e = Undefined \<longrightarrow> metadata_error (?results ! i) = Some ''Unknown error''))"
  proof (intro allI impI)
    fix i assume i: "i < length frames"
    show "(\<forall>r. outcome i (frames ! i) = Inr r \<longrightarrow> ?results ! i = r)
        \<and> (\<forall>e. outcome i (frames ! i) = Inl e \<longrightarrow>
               ?results ! i = sentinel (frame_timestamp (frames ! i)) (errMsgOf e)
             \<and> timestamp (?results ! i) = frame_timestamp (frames ! i)
             \<and> metadata_error (?results ! i) = Some (errMsgOf e)
             \<and> (\<forall>name msg. e = ErrorObj name msg \<and> msg \<noteq> []
                   \<longrightarrow> metadata_error (?results ! i) = Some msg)
             \<and> (\<forall>name. e = ErrorObj name [] \<longrightarrow> metadata_error (?results ! i) = Some name)
             \<and> (\<forall>r. e = Other r \<longrightarrow> metadata_error (?results ! i) = Some r)
             \<and> (e = Undefined \<longrightarrow> metadata_error (?results ! i) = Some ''Unknown error''))"
      unfolding nth [OF i]
      by (auto simp: slot_def metadata_error_sentinel timestamp_sentinel errMsgOf_def
          String_of_def)
  qed
  show ?thesis by (rule exI [of _ ?results]) (intro conjI res len body)
qed

theorem batch_keeps_every_slot_witness:
  "\<not> never_cancelled 0 \<and> \<not> never_cancelled 1
   \<and> (\<exists>results. analyzeFramesBatch never_cancelled mixed_outcome two_frames = Inr results
         \<and> length results = length two_frames)
   \<and> analyzeFramesBatch never_cancelled mixed_outcome two_frames
     = Inr [fromApiResponse no_opts 0 ''M'', sentinel 10 ''Empty response from HuggingFace'']"
proof -
  have h: "\<forall>i<length two_frames. \<not> never_cancelled i"
    by (simp add: never_cancelled_def)
  have ex: "\<exists>results. analyzeFramesBatch never_cancelled mixed_outcome two_frames = Inr results
         \<and> length results = length two_frames"
    using batch_keeps_every_slot [OF h, of mixed_outcome] by (elim exE conjE) (rule exI, rule conjI)
  have ev: "analyzeFramesBatch never_cancelled mixed_outcome two_frames
     = Inr [fromApiResponse no_opts 0 ''M'', sentinel 10 ''Empty response from HuggingFace'']"
    by (simp add: analyzeFramesBatch_def never_cancelled_def mixed_outcome_def two_frames_def
        errMsgOf_def Error_def)
  have n: "\<not> never_cancelled 0" "\<not> never_cancelled 1"
    by (simp_all add: never_cancelled_def)
  show ?thesis by (intro conjI n ex ev)
qed

text \<open>
  C5 as stated fails where the thrown value has no message, or an empty one: the
  sentinel then carries the string rendering, which is not the exception's message.
\<close>

theorem batch_error_message_counterexample:
  "analyzeFramesBatch never_cancelled failing_outcome two_frames
     = Inr [sentinel 0 ''[object ProgressEvent]'', sentinel 10 ''Error'']
   \<and> metadata_error (sentinel 0 ''[object ProgressEvent]'')
      \<noteq> exception_message (Other ''[object ProgressEvent]'')
   \<and> metadata_error (sentinel 10 ''Error'') \<noteq> exception_message (ErrorObj ''Error'' [])"
  by (simp add: analyzeFramesBatch_def never_cancelled_def failing_outcome_def two_frames_def
      errMsgOf_def String_of_def metadata_error_sentinel exception_message_def)

subsection \<open>Model fallback\<close>

lemma fallbackLoop_pos:
  "0 < n \<Longrightarrow>
   fallbackLoop server n attempt totalModels tried lastError cl =
     (if cancelled cl then (Inl (Error ''Cancelled''), cl)
      else
        (case attemptStep server attempt totalModels tried lastError cl of
           Done r cl' \<Rightarrow> (r, cl')
         | Next tried' err cl' \<Rightarrow>
             fallbackLoop server (n - 1) (attempt + 1) totalModels tried' err cl'))"
  by (cases n) (simp_all split: Step.splits)

lemmas client_eval =
  fallbackLoop_pos sendWithFallback_def attemptStep_def catchBlock_def getCurrentModel_def
  rotateModel_def sleep_def Error_def HuggingFaceClient_new_def Let_def

text \<open>
  Scenario S6 holds: with 429 on M1 and M2 and 200 on M3 there are three requests, the
  last one to M3, no sleep, and the analysis names M3 as its model.
\<close>

lemma scenario_S6_rotation:
  "sendWithFallback scenario_S6_server scenario_S6_client
   = (Inr (''{}'', ''M3''),
      scenario_S6_client\<lparr>currentModelIndex := 2,
        events := [Request ''M1'', Request ''M2'', Request ''M3'']\<rparr>)"
  by (simp add: client_eval scenario_S6_client_def scenario_S6_server_def)

lemma scenario_S6_modelUsed:
  "\<exists>a. fst (analyzeFrame scenario_S6_server extractJson scenario_S6_client frame) = Inr a
       \<and> modelUsed a = ''M3''"
  by (simp add: analyzeFrame_def scenario_S6_rotation fromApiResponse_def
      FrameAnalysis_new_def)

text \<open>
  C6. The claim is that the loop sleeps \<open>allModelsBackoff\<close> only when every model has
  answered 429 within the round. The code at this input: M1 answers 429, the request to
  M2 runs into the deadline (which rotates the model without counting), M3 answers 429,
  and M1 answers 429 again; the counter has then reached the number of models and the
  loop sleeps 60000 ms, although M2 has never answered 429. The next request, to M2,
  succeeds.
\<close>

theorem backoff_without_all_models_rate_limited:
  "sendWithFallback timeout_server scenario_S6_client
   = (Inr (''{}'', ''M2''),
      scenario_S6_client\<lparr>currentModelIndex := 1,
        events := [Request ''M1'', Request ''M2'', Request ''M3'', Request ''M1'',
                   Sleep 60000, Request ''M2'']\<rparr>)
   \<and> timeout_server 1 ''M2'' = Rejects ''TimeoutError'' ''The operation timed out.''
   \<and> timeout_server 4 ''M2'' = Http 200 ''{}''"
  by (simp add: client_eval scenario_S6_client_def timeout_server_def)

subsection \<open>Well-formed ranges at every stage\<close>

lemma those_map_SomeD:
  "those (map f xs) = Some ys \<Longrightarrow> y \<in> set ys \<Longrightarrow> \<exists>x\<in>set xs. f x = Some y"
  by (induction xs arbitrary: ys) (auto split: option.splits)

lemma timeRange_Clip_new: "timeRange (Clip_new u opts) = timeRange opts"
  by (simp add: Clip_new_def)

lemma clip_ok_Clip_new: "clip_ok (Clip_new u opts) = range_ok (timeRange opts)"
  by (simp add: clip_ok_def timeRange_Clip_new)

lemma multiKillClip_ok: "multiKillClip u mk = Some c \<Longrightarrow> clip_ok c"
  by (auto simp: multiKillClip_def Let_def clip_ok_Clip_new
      dest: TimeRange_new_range_ok split: option.splits)

lemma clutchClip_ok: "clutchClip u cm = Some c \<Longrightarrow> clip_ok c"
  by (auto simp: clutchClip_def clip_ok_Clip_new dest: TimeRange_new_range_ok
      split: option.splits)

lemma excitementClip_ok: "excitementClip u a = Some c \<Longrightarrow> clip_ok c"
  by (auto simp: excitementClip_def clip_ok_Clip_new dest: TimeRange_new_range_ok
      split: option.splits)

lemma seedHighlights_ok:
  assumes "seedHighlights rnd analyses mes cms = Some seeds"
  shows "list_all clip_ok seeds"
proof -
  from assms obtain h1 h2 h3 where
    h1: "those (map (\<lambda>(k, mk). multiKillClip (rnd k) mk) (enumerate 0 mes)) = Some h1" and
    h2: "those (map (\<lambda>(k, cm). clutchClip (rnd k) cm) (enumerate (length mes) cms)) = Some h2" and
    h3: "those (map (\<lambda>(k, a). excitementClip (rnd k) a)
                  (enumerate (length mes + length cms)
                     (filter (\<lambda>a. score_ge (excitementScore a) 25) analyses))) = Some h3" and
    s: "seeds = h1 @ h2 @ h3"
    by (auto simp: seedHighlights_def bind_eq_Some_conv)
  have "\<forall>c\<in>set h1. clip_ok c"
    using those_map_SomeD [OF h1] multiKillClip_ok by fastforce
  moreover have "\<forall>c\<in>set h2. clip_ok c"
    using those_map_SomeD [OF h2] clutchClip_ok by fastforce
  moreover have "\<forall>c\<in>set h3. clip_ok c"
    using those_map_SomeD [OF h3] excitementClip_ok by fastforce
  ultimately show ?thesis by (auto simp: s list_all_iff)
qed

lemma mergeOverlappingClips_ok:
  assumes "list_all clip_ok cs" "mergeOverlappingClips cs = Some merged"
  shows "list_all clip_ok merged"
  using mergeOverlappingClips_separated [OF assms(1)] assms(2) by auto

lemma suggestHighlights_ok:
  assumes "suggestHighlights rnd analyses mes cms = Some hs"
  shows "list_all clip_ok hs"
proof -
  from assms obtain seeds where
    s: "seedHighlights rnd analyses mes cms = Some seeds" and
    m: "mergeOverlappingClips (sort_key (\<lambda>c. - priority c) seeds) = Some hs"
    by (auto simp: suggestHighlights_def bind_eq_Some_conv)
  have "list_all clip_ok (sort_key (\<lambda>c. - priority c) seeds)"
    using seedHighlights_ok [OF s] by (simp add: list_all_iff)
  then show ?thesis using m by (rule mergeOverlappingClips_ok)
qed

lemma timeRange_scoreClip: "timeRange (scoreClip eng p analyses c) = timeRange c"
  by (simp add: scoreClip_def Let_def timeRange_Clip_new)

lemma scoreClips_ok: "list_all clip_ok cs \<Longrightarrow> list_all clip_ok (scoreClips eng p cs analyses)"
  by (simp add: scoreClips_def list_all_iff clip_ok_def timeRange_scoreClip)

lemma adjustClipLength_ok:
  assumes "clip_ok c" "adjustClipLength p c = Some c'"
  shows "clip_ok c'"
  using assms
  by (auto simp: adjustClipLength_def Let_def clip_ok_withAdjustedRange
      dest: TimeRange_new_range_ok split: if_splits)

lemma adjustClipLengths_ok:
  assumes "list_all clip_ok cs" "adjustClipLengths p cs = Some cs'"
  shows "list_all clip_ok cs'"
  using assms those_map_SomeD [of "adjustClipLength p" cs cs'] adjustClipLength_ok
  unfolding adjustClipLengths_def list_all_iff by blast

lemma trimLoop_ok:
  assumes "list_all clip_ok trimmed" "list_all clip_ok rest"
    "trimLoop p trimmed acc rest = Some out"
  shows "list_all clip_ok out"
  using assms
proof (induction rest arbitrary: trimmed acc)
  case Nil
  then show ?case by simp
next
  case (Cons clip rest)
  show ?case
  proof (cases "acc + clip_duration clip \<le> targetDuration p")
    case True
    then have "trimLoop p (trimmed @ [clip]) (acc + clip_duration clip) rest = Some out"
      using Cons.prems(3) by simp
    moreover have "list_all clip_ok (trimmed @ [clip])" "list_all clip_ok rest"
      using Cons.prems(1,2) by simp_all
    ultimately show ?thesis using Cons.IH by blast
  next
    case False
    then show ?thesis using Cons.prems
      by (auto simp: Let_def clip_ok_withAdjustedRange dest: TimeRange_new_range_ok
          split: if_splits option.splits)
  qed
qed

lemma trimToTargetDuration_ok:
  assumes "list_all clip_ok cs" "trimToTargetDuration p cs = Some out"
  shows "list_all clip_ok out"
  using assms trimLoop_ok [of "[]" cs p 0 out]
  by (auto simp: trimToTargetDuration_def split: if_splits)

lemma set_pacingLoop: "set (pacingLoop high medium) = set high \<union> set medium"
  by (induction high medium rule: pacingLoop.induct) auto

lemma set_pacing_start:
  "set (case high of [] \<Rightarrow> pacingLoop [] medium | h # high' \<Rightarrow> h # pacingLoop high' medium)
   = set high \<union> set medium"
  by (cases high) (auto simp: set_pacingLoop)

lemma set_optimizePacing: "set (optimizePacing cs) \<subseteq> set cs"
  by (auto simp: optimizePacing_def Let_def set_pacing_start dest: in_set_takeD)

lemma set_applyOrder: "set (applyOrder order xs) = set xs"
proof (cases "sort order = [0..<length xs]")
  case True
  have "set order = set (sort order)" by simp
  then have "set order = {0..<length xs}" unfolding True by simp
  then have "set (map (nth xs) order) = set xs"
    by (auto simp: in_set_conv_nth)
  then show ?thesis using True by (simp add: applyOrder_def)
next
  case False
  then show ?thesis by (simp add: applyOrder_def)
qed

lemma set_sortByScore: "set (sortByScore eng cs) = set cs"
  by (simp add: sortByScore_def set_applyOrder)

lemma optimizeClips_ok:
  assumes "list_all clip_ok cs" "optimizeClips eng p cs analyses = Some out"
  shows "list_all clip_ok out"
proof -
  from assms(2) obtain adjusted trimmed where
    a: "adjustClipLengths p (scoreClips eng p cs analyses) = Some adjusted" and
    t: "trimToTargetDuration p (sortByScore eng adjusted) = Some trimmed"
    and o: "out = optimizePacing trimmed"
    by (auto simp: optimizeClips_def bind_eq_Some_conv)
  have "list_all clip_ok adjusted"
    using scoreClips_ok [OF assms(1)] a by (rule adjustClipLengths_ok)
  then have "list_all clip_ok (sortByScore eng adjusted)"
    by (simp add: list_all_iff set_sortByScore)
  then have "list_all clip_ok trimmed" using t by (rule trimToTargetDuration_ok)
  then show ?thesis using set_optimizePacing [of trimmed] by (auto simp: o list_all_iff)
qed

lemma createHookIntro_ok: "createHookIntro u cs = Some (Some h) \<Longrightarrow> clip_ok h"
  by (auto simp: createHookIntro_def Let_def clip_ok_Clip_new dest: TimeRange_new_range_ok
      split: list.splits option.splits)

lemma clampClip_ok: "clampClip D c = Some (Some c') \<Longrightarrow> clip_ok c'"
  by (auto simp: clampClip_def Let_def clip_ok_withAdjustedRange dest: TimeRange_new_range_ok
      split: if_splits)

lemma clampHook_ok: "clampHook D hook = Some (Some h') \<Longrightarrow> clip_ok h'"
proof (cases hook)
  case None
  then show "clampHook D hook = Some (Some h') \<Longrightarrow> clip_ok h'"
    by (simp add: clampHook_def)
next
  case (Some h)
  then show "clampHook D hook = Some (Some h') \<Longrightarrow> clip_ok h'"
    using clampClip_ok [of D h h'] by (simp add: clampHook_clampClip)
qed

lemma clampClips_ok:
  assumes "clampClips D cs = Some out"
  shows "list_all clip_ok out"
proof -
  from assms obtain xs where x: "those (map (clampClip D) cs) = Some xs"
    and o: "out = List.map_filter (\<lambda>x. x) xs"
    by (auto simp: clampClips_def)
  have "\<forall>c'. Some c' \<in> set xs \<longrightarrow> clip_ok c'"
    using those_map_SomeD [OF x] clampClip_ok by blast
  then show ?thesis by (auto simp: o list_all_iff List.map_filter_def)
qed

lemma direct_parts:
  assumes "direct config eng rnd analyses = Some res"
  shows "\<exists>hs. suggestHighlights rnd (analyzeExcitementLevels eng analyses)
                 (detectMultiEvents (analyzeExcitementLevels eng analyses))
                 (detectClutchMoments (analyzeExcitementLevels eng analyses)) = Some hs
          \<and> optimizeClips eng (CreativeDirector_planner config) hs (analyzeExcitementLevels eng analyses)
              = Some (clips res)
          \<and> createHookIntro
               (rnd (seedCount (analyzeExcitementLevels eng analyses)
                       (detectMultiEvents (analyzeExcitementLevels eng analyses))
                       (detectClutchMoments (analyzeExcitementLevels eng analyses))))
               (clips res) = Some (hookClip res)"
  using assms by (auto simp: direct_def Let_def bind_eq_Some_conv)

lemma direct_ok:
  assumes "direct config eng rnd analyses = Some res"
  shows "list_all clip_ok (clips res) \<and> (\<forall>h. hookClip res = Some h \<longrightarrow> clip_ok h)"
proof -
  from direct_parts [OF assms] obtain hs where
    h: "suggestHighlights rnd (analyzeExcitementLevels eng analyses)
                 (detectMultiEvents (analyzeExcitementLevels eng analyses))
                 (detectClutchMoments (analyzeExcitementLevels eng analyses)) = Some hs" and
    o: "optimizeClips eng (CreativeDirector_planner config) hs (analyzeExcitementLevels eng analyses)
              = Some (clips res)" and
    k: "createHookIntro
               (rnd (seedCount (analyzeExcitementLevels eng analyses)
                       (detectMultiEvents (analyzeExcitementLevels eng analyses))
                       (detectClutchMoments (analyzeExcitementLevels eng analyses))))
               (clips res) = Some (hookClip res)"
    by blast
  have "list_all clip_ok (clips res)"
    using suggestHighlights_ok [OF h] o by (rule optimizeClips_ok)
  moreover have "\<forall>h. hookClip res = Some h \<longrightarrow> clip_ok h"
    using k createHookIntro_ok by metis
  ultimately show ?thesis by blast
qed

text \<open>A run of the default director on one exciting frame at time 0.\<close>

lemma default_run:
  "direct default_config sample_engine uuids [kill_frame 0] =
   Some
    \<lparr>clips =
       [\<lparr>timeRange = \<lparr>startSeconds = 0, endSeconds = 3\<rparr>, reason = ''High excitement'',
         score = \<lparr>score_value = Some 16, breakdown = []\<rparr>, clipType = ''high_excitement'',
         label = ''INTENSE'', priority = 7, clip_actionIntensity = ''high'',
         clip_id = ''uuid-0'', clip_metadata = []\<rparr>],
     hookClip =
       Some \<lparr>timeRange = \<lparr>startSeconds = 0, endSeconds = 3\<rparr>, reason = ''hook'',
             score = \<lparr>score_value = Some 16, breakdown = []\<rparr>, clipType = ''hook'',
             label = ''HOOK'', priority = 0, clip_actionIntensity = ''low'',
             clip_id = ''uuid-1'', clip_metadata = [(''isHook'', True)]\<rparr>,
     engagementCurve = Curve (Some 16) (Some 0) 0 3 1 80,
     varietyAnalysis =
       \<lparr>varietyScore = 20, uniqueTypes = Some 1, durationVariance = Some 0,
        issues = [''low_type_variety'', ''uniform_clip_lengths'']\<rparr>,
     suggestions =
       [''Video is very short. Consider including more clips.'',
        ''Many low-scoring clips detected. Consider raising the quality threshold.''],
     multiEvents = [], clutchMoments = [], momentumShifts = []\<rparr>"
  by code_simp

text \<open>
  C7 (amended). Every clip of every stage has a range with \<open>end > start \<ge> 0\<close>: this is
  what the \<open>TimeRange\<close> constructor guarantees, and it holds of the clips seeded, of the
  clips merged, of the clips after composition (scoring and length adjustment) and
  after trimming, of the clips and the hook that \<open>direct\<close> returns, and of the clips and
  the hook after clamping.
\<close>

theorem every_clip_range_well_formed:
  "(clip_ok c \<longleftrightarrow> 0 \<le> clip_start c \<and> clip_start c < clip_end c)
   \<and> (TimeRange_new s e = Some r \<longrightarrow> 0 \<le> startSeconds r \<and> startSeconds r < endSeconds r)
   \<and> (seedHighlights rnd analyses mes cms = Some seeds \<longrightarrow> list_all clip_ok seeds)
   \<and> (suggestHighlights rnd analyses mes cms = Some merged \<longrightarrow> list_all clip_ok merged)
   \<and> (list_all clip_ok cs \<and> adjustClipLengths p (scoreClips eng p cs analyses) = Some adjusted
        \<longrightarrow> list_all clip_ok adjusted)
   \<and> (list_all clip_ok cs \<and> trimToTargetDuration p cs = Some trimmed
        \<longrightarrow> list_all clip_ok trimmed)
   \<and> (list_all clip_ok cs \<and> optimizeClips eng p cs analyses = Some optimized
        \<longrightarrow> list_all clip_ok optimized)
   \<and> (createHookIntro uuid cs = Some (Some h) \<longrightarrow> clip_ok h)
   \<and> (direct config eng rnd analyses = Some res
        \<longrightarrow> list_all clip_ok (clips res) \<and> (\<forall>h. hookClip res = Some h \<longrightarrow> clip_ok h))
   \<and> (clampClips videoDuration cs = Some clamped \<longrightarrow> list_all clip_ok clamped)
   \<and> (clampHook videoDuration hook = Some (Some h') \<longrightarrow> clip_ok h')"
proof -
  have 1: "clip_ok c \<longleftrightarrow> 0 \<le> clip_start c \<and> clip_start c < clip_end c"
    by (simp add: clip_ok_def range_ok_def clip_start_def clip_end_def)
  have 2: "TimeRange_new s e = Some r \<longrightarrow> 0 \<le> startSeconds r \<and> startSeconds r < endSeconds r"
    using TimeRange_new_range_ok [of s e r] by (simp add: range_ok_def)
  have 3: "seedHighlights rnd analyses mes cms = Some seeds \<longrightarrow> list_all clip_ok seeds"
    using seedHighlights_ok by blast
  have 4: "suggestHighlights rnd analyses mes cms = Some merged \<longrightarrow> list_all clip_ok merged"
    using suggestHighlights_ok by blast
  have 5: "list_all clip_ok cs \<and> adjustClipLengths p (scoreClips eng p cs analyses) = Some adjusted
        \<longrightarrow> list_all clip_ok adjusted"
    using adjustClipLengths_ok [OF scoreClips_ok] by blast
  have 6: "list_all clip_ok cs \<and> trimToTargetDuration p cs = Some trimmed
        \<longrightarrow> list_all clip_ok trimmed"
    using trimToTargetDuration_ok by blast
  have 7: "list_all clip_ok cs \<and> optimizeClips eng p cs analyses = Some optimized
        \<longrightarrow> list_all clip_ok optimized"
    using optimizeClips_ok by blast
  have 8: "createHookIntro uuid cs = Some (Some h) \<longrightarrow> clip_ok h"
    using createHookIntro_ok by blast
  have 9: "direct config eng rnd analyses = Some res
        \<longrightarrow> list_all clip_ok (clips res) \<and> (\<forall>h. hookClip res = Some h \<longrightarrow> clip_ok h)"
    using direct_ok by blast
  have 10: "clampClips videoDuration cs = Some clamped \<longrightarrow> list_all clip_ok clamped"
    using clampClips_ok by blast
  have 11: "clampHook videoDuration hook = Some (Some h') \<longrightarrow> clip_ok h'"
    using clampHook_ok by blast
  show ?thesis by (intro conjI; fact)
qed

theorem every_clip_range_well_formed_witness:
  "TimeRange_new (-2) 3 = Some \<lparr>startSeconds = 0, endSeconds = 3\<rparr>
   \<and> (\<exists>res. direct default_config sample_engine uuids [kill_frame 0] = Some res
         \<and> list_all clip_ok (clips res) \<and> (\<forall>h. hookClip res = Some h \<longrightarrow> clip_ok h))"
proof -
  have t: "TimeRange_new (-2) 3 = Some \<lparr>startSeconds = 0, endSeconds = 3\<rparr>"
    by (simp add: TimeRange_new_def)
  obtain res where r: "direct default_config sample_engine uuids [kill_frame 0] = Some res"
    using default_run by blast
  have "direct default_config sample_engine uuids [kill_frame 0] = Some res
        \<longrightarrow> list_all clip_ok (clips res) \<and> (\<forall>h. hookClip res = Some h \<longrightarrow> clip_ok h)"
    by (rule every_clip_range_well_formed
      [THEN conjunct2, THEN conjunct2, THEN conjunct2, THEN conjunct2, THEN conjunct2,
       THEN conjunct2, THEN conjunct2, THEN conjunct2, THEN conjunct1])
  then have "list_all clip_ok (clips res) \<and> (\<forall>h. hookClip res = Some h \<longrightarrow> clip_ok h)"
    using r by (rule mp)
  then show ?thesis using t r by blast
qed

text \<open>
  C7 as stated fails: the start is not strictly positive. A frame at time 0 seeds the
  range \<open>[max(0, -2), 3]\<close>, and the director returns a clip that starts at 0.
\<close>

theorem clip_start_zero_counterexample:
  "TimeRange_new (max 0 (0 - 2)) (0 + 3) = Some \<lparr>startSeconds = 0, endSeconds = 3\<rparr>
   \<and> map_option (map clip_start \<circ> clips) (direct default_config sample_engine uuids [kill_frame 0])
     = Some [0]"
  by (simp add: default_run TimeRange_new_def clip_start_def)

subsection \<open>The hook\<close>

lemma js_ge_numeric:
  "score_value (score a) \<noteq> None \<Longrightarrow> score_value (score b) \<noteq> None \<Longrightarrow>
   js_ge (score_value (score a)) (score_value (score b)) \<longleftrightarrow> scoreOf b \<le> scoreOf a"
  by (auto simp: js_ge_def scoreOf_def)

text \<open>
  Among clips whose scores are numbers, \<open>reduce\<close> keeps the first clip of the highest
  score: it replaces the clip kept only by a clip of a strictly higher score.
\<close>

lemma bestClip_first_highest:
  assumes "numeric_scores (first # rest)"
  shows "\<exists>i<length (first # rest). bestClip first rest = (first # rest) ! i
     \<and> (\<forall>j<length (first # rest). scoreOf ((first # rest) ! j) \<le> scoreOf ((first # rest) ! i))
     \<and> (\<forall>j<i. scoreOf ((first # rest) ! j) < scoreOf ((first # rest) ! i))"
  using assms
proof (induction rest rule: rev_induct)
  case Nil
  then show ?case by (simp add: bestClip_def)
next
  case (snoc x rest)
  define cs where "cs = first # rest"
  have num: "numeric_scores (first # rest)" and nx: "score_value (score x) \<noteq> None"
    using snoc.prems by (simp_all add: numeric_scores_def)
  obtain i where i: "i < length cs" "bestClip first rest = cs ! i"
    and mx: "\<forall>j<length cs. scoreOf (cs ! j) \<le> scoreOf (cs ! i)"
    and fst: "\<forall>j<i. scoreOf (cs ! j) < scoreOf (cs ! i)"
    using snoc.IH [OF num] unfolding cs_def by blast
  have "cs ! i \<in> set cs" using i(1) by (rule nth_mem)
  moreover have "\<forall>c\<in>set cs. score_value (score c) \<noteq> None"
    using num unfolding numeric_scores_def list_all_iff cs_def .
  ultimately have nb: "score_value (score (bestClip first rest)) \<noteq> None"
    unfolding i(2) by blast
  have step: "bestClip first (rest @ [x])
    = (if scoreOf x \<le> scoreOf (bestClip first rest) then bestClip first rest else x)"
    using js_ge_numeric [OF nb nx] by (simp add: bestClip_def)
  have app: "first # rest @ [x] = cs @ [x]" by (simp add: cs_def)
  have nl: "\<And>j. j < length cs \<Longrightarrow> (cs @ [x]) ! j = cs ! j" by (rule nth_append_left)
  have nr: "(cs @ [x]) ! length cs = x" by (rule nth_append_length)
  have cases: "\<And>j. j < length (cs @ [x]) \<Longrightarrow> j < length cs \<or> j = length cs" by auto
  show ?case
  proof (cases "scoreOf x \<le> scoreOf (bestClip first rest)")
    case True
    have a: "i < length (cs @ [x])" using i(1) by simp
    have b: "bestClip first (rest @ [x]) = (cs @ [x]) ! i"
      unfolding nl [OF i(1)] using True i(2) by (simp add: step)
    have c: "\<forall>j<length (cs @ [x]). scoreOf ((cs @ [x]) ! j) \<le> scoreOf ((cs @ [x]) ! i)"
    proof (intro allI impI)
      fix j assume "j < length (cs @ [x])"
      then consider "j < length cs" | "j = length cs" using cases by blast
      then show "scoreOf ((cs @ [x]) ! j) \<le> scoreOf ((cs @ [x]) ! i)"
      proof cases
        case 1
        show ?thesis unfolding nl [OF 1] nl [OF i(1)] using mx 1 by blast
      next
        case 2
        show ?thesis unfolding 2 nr nl [OF i(1)] using True i(2) by simp
      qed
    qed
    have d: "\<forall>j<i. scoreOf ((cs @ [x]) ! j) < scoreOf ((cs @ [x]) ! i)"
    proof (intro allI impI)
      fix j assume j: "j < i"
      then have jl: "j < length cs" using i(1) by simp
      show "scoreOf ((cs @ [x]) ! j) < scoreOf ((cs @ [x]) ! i)"
        unfolding nl [OF jl] nl [OF i(1)] using fst j by blast
    qed
    show ?thesis unfolding app using a b c d by blast
  next
    case False
    have a: "length cs < length (cs @ [x])" by simp
    have b: "bestClip first (rest @ [x]) = (cs @ [x]) ! length cs"
      unfolding nr using False by (simp add: step)
    have lt: "\<forall>j<length cs. scoreOf (cs ! j) < scoreOf x"
      using mx i(2) False by fastforce
    have c: "\<forall>j<length (cs @ [x]).
               scoreOf ((cs @ [x]) ! j) \<le> scoreOf ((cs @ [x]) ! length cs)"
    proof (intro allI impI)
      fix j assume "j < length (cs @ [x])"
      then consider "j < length cs" | "j = length cs" using cases by blast
      then show "scoreOf ((cs @ [x]) ! j) \<le> scoreOf ((cs @ [x]) ! length cs)"
      proof cases
        case 1
        then have "scoreOf (cs ! j) < scoreOf x" using lt by blast
        then show ?thesis unfolding nl [OF 1] nr by simp
      next
        case 2
        show ?thesis unfolding 2 by simp
      qed
    qed
    have d: "\<forall>j<length cs. scoreOf ((cs @ [x]) ! j) < scoreOf ((cs @ [x]) ! length cs)"
    proof (intro allI impI)
      fix j assume j: "j < length cs"
      then have "scoreOf (cs ! j) < scoreOf x" using lt by blast
      then show "scoreOf ((cs @ [x]) ! j) < scoreOf ((cs @ [x]) ! length cs)"
        unfolding nl [OF j] nr .
    qed
    show ?thesis unfolding app using a b c d by blast
  qed
qed

lemma createHookIntro_Cons:
  assumes "0 < midpoint (timeRange (bestClip first rest)) + 3/2"
  shows "createHookIntro uuid (first # rest)
    = Some (Some (Clip_new uuid
        \<lparr>timeRange = \<lparr>startSeconds = max 0 (midpoint (timeRange (bestClip first rest)) - 3/2),
                      endSeconds = midpoint (timeRange (bestClip first rest)) + 3/2\<rparr>,
         reason = ''hook'', score = score (bestClip first rest), clipType = ''hook'',
         label = ''HOOK'', priority = 0, clip_actionIntensity = [], clip_id = [],
         clip_metadata = [(''isHook'', True)]\<rparr>))"
proof -
  have "\<not> midpoint (timeRange (bestClip first rest)) + 3/2
          \<le> max 0 (midpoint (timeRange (bestClip first rest)) - 3/2)"
    using assms by (simp add: max_def)
  then show ?thesis
    by (simp add: createHookIntro_def Let_def TimeRange_new_def)
qed

text \<open>
  The scores of the clips that \<open>direct\<close> returns are numbers when no action intensity
  of the analyses reads an inherited member of the table of \<open>scoreClips\<close>.
\<close>

lemma closestLoop_mem:
  "closestLoop midTime st analyses = Some r \<Longrightarrow> st = Some r \<or> fst r \<in> set analyses"
proof (induction analyses arbitrary: st)
  case Nil
  then show ?case by simp
next
  case (Cons a analyses)
  let ?st = "case st of
               None \<Rightarrow> Some (a, \<bar>timestamp a - midTime\<bar>)
             | Some (closest, closestDist) \<Rightarrow>
                 if \<bar>timestamp a - midTime\<bar> < closestDist
                 then Some (a, \<bar>timestamp a - midTime\<bar>) else st"
  have "closestLoop midTime ?st analyses = Some r"
    using Cons.prems by (simp add: Let_def)
  then have "?st = Some r \<or> fst r \<in> set analyses" by (rule Cons.IH)
  then show ?case by (auto split: option.splits if_splits)
qed

lemma plusMember_plain:
  assumes "plain_key eng table k"
  shows "\<exists>v. plusMember (N n) (getMember eng table k) = N v"
  using assms
  by (auto simp: plain_key_def getMember_def plusMember_def plusNum_def split: option.splits)

lemma scoreClip_numeric:
  assumes "\<forall>a\<in>set analyses. plain_key eng intensityScores (actionIntensity a)"
  shows "score_value (score (scoreClip eng p analyses c)) \<noteq> None"
proof (cases "closestLoop (midpoint (timeRange c)) None analyses")
  case None
  then show ?thesis
    by (simp add: scoreClip_def Let_def Clip_new_def QualityScore_new_def toNumber_def
        minusNum_def)
next
  case (Some r)
  then have "fst r \<in> set analyses" using closestLoop_mem by blast
  then have pk: "plain_key eng intensityScores (actionIntensity (fst r))" using assms by blast
  obtain v where v: "plusMember (if killLog (fst r) then plusNum (N 0) 10 else N 0)
                       (getMember eng intensityScores (actionIntensity (fst r))) = N v"
    using plusMember_plain [OF pk, of 0] plusMember_plain [OF pk, of 10]
    by (cases "killLog (fst r)") (auto simp: plusNum_def)
  show ?thesis
    by (simp add: scoreClip_def Let_def Some v Clip_new_def QualityScore_new_def toNumber_def
        minusNum_def plusNum_def)
qed

lemma scoreClips_numeric:
  assumes "\<forall>a\<in>set analyses. plain_key eng intensityScores (actionIntensity a)"
  shows "numeric_scores (scoreClips eng p cs analyses)"
  using scoreClip_numeric [OF assms]
  by (simp add: numeric_scores_def scoreClips_def list_all_iff)

lemma analyzeExcitementLevels_plain:
  assumes "\<forall>a\<in>set analyses. plain_key eng intensityScores (actionIntensity a)"
  shows "\<forall>a\<in>set (analyzeExcitementLevels eng analyses).
           plain_key eng intensityScores (actionIntensity a)"
  using assms
  by (auto simp: analyzeExcitementLevels_def FrameAnalysis_new_def or_default_def
      plain_key_def intensityScores_def)

lemma score_withAdjustedRange: "score (withAdjustedRange c r) = score c"
  by (simp add: withAdjustedRange_def Clip_new_def)

lemma adjustClipLength_numeric:
  assumes "score_value (score c) \<noteq> None" "adjustClipLength p c = Some c'"
  shows "score_value (score c') \<noteq> None"
  using assms
  by (auto simp: adjustClipLength_def Let_def score_withAdjustedRange split: if_splits)

lemma adjustClipLengths_numeric:
  assumes "numeric_scores cs" "adjustClipLengths p cs = Some cs'"
  shows "numeric_scores cs'"
  using assms those_map_SomeD [of "adjustClipLength p" cs cs'] adjustClipLength_numeric
  unfolding adjustClipLengths_def numeric_scores_def list_all_iff by blast

lemma trimLoop_numeric:
  assumes "numeric_scores trimmed" "numeric_scores rest"
    "trimLoop p trimmed acc rest = Some out"
  shows "numeric_scores out"
  using assms
proof (induction rest arbitrary: trimmed acc)
  case Nil
  then show ?case by simp
next
  case (Cons clip rest)
  show ?case
  proof (cases "acc + clip_duration clip \<le> targetDuration p")
    case True
    then have "trimLoop p (trimmed @ [clip]) (acc + clip_duration clip) rest = Some out"
      using Cons.prems(3) by simp
    moreover have "numeric_scores (trimmed @ [clip])" "numeric_scores rest"
      using Cons.prems(1,2) by (simp_all add: numeric_scores_def)
    ultimately show ?thesis using Cons.IH by blast
  next
    case False
    then show ?thesis using Cons.prems
      by (auto simp: Let_def numeric_scores_def score_withAdjustedRange
          split: if_splits option.splits)
  qed
qed

lemma trimToTargetDuration_numeric:
  assumes "numeric_scores cs" "trimToTargetDuration p cs = Some out"
  shows "numeric_scores out"
  using assms trimLoop_numeric [of "[]" cs p 0 out]
  by (auto simp: trimToTargetDuration_def numeric_scores_def split: if_splits)

lemma optimizeClips_numeric:
  assumes "\<forall>a\<in>set analyses. plain_key eng intensityScores (actionIntensity a)"
    and "optimizeClips eng p cs analyses = Some out"
  shows "numeric_scores out"
proof -
  from assms(2) obtain adjusted trimmed where
    a: "adjustClipLengths p (scoreClips eng p cs analyses) = Some adjusted" and
    t: "trimToTargetDuration p (sortByScore eng adjusted) = Some trimmed"
    and o: "out = optimizePacing trimmed"
    by (auto simp: optimizeClips_def bind_eq_Some_conv)
  have "numeric_scores adjusted"
    using scoreClips_numeric [OF assms(1)] a by (rule adjustClipLengths_numeric)
  then have "numeric_scores (sortByScore eng adjusted)"
    by (simp add: numeric_scores_def list_all_iff set_sortByScore)
  then have "numeric_scores trimmed" using t by (rule trimToTargetDuration_numeric)
  then show ?thesis
    using set_optimizePacing [of trimmed] by (auto simp: o numeric_scores_def list_all_iff)
qed

lemma direct_numeric:
  assumes "direct config eng rnd analyses = Some res"
    and "\<forall>a\<in>set analyses. plain_key eng intensityScores (actionIntensity a)"
  shows "numeric_scores (clips res)"
proof -
  from direct_parts [OF assms(1)] obtain hs where
    "optimizeClips eng (CreativeDirector_planner config) hs
       (analyzeExcitementLevels eng analyses) = Some (clips res)"
    by blast
  then show ?thesis
    using analyzeExcitementLevels_plain [OF assms(2)] by (rule optimizeClips_numeric [rotated])
qed

text \<open>
  With a score that is NaN the clip kept by \<open>reduce\<close> need not be one of the highest
  score: every comparison with NaN is false and passes to the later clip. Of clips of
  scores 5, NaN and 3 the hook is made of the last; and the director, given a frame
  whose action intensity is \<open>constructor\<close>, returns clips of scores 16 and NaN and makes
  the hook of the second.
\<close>

lemma hook_of_unranked_clips:
  "map_option (map_option (\<lambda>h. (score_value (score h), timeRange h)))
     (createHookIntro ''u'' unranked_clips)
   = Some (Some (Some 3, \<lparr>startSeconds = 81/2, endSeconds = 87/2\<rparr>))"
  by code_simp

lemma hook_of_inherited_key_run:
  "map_option (map (\<lambda>c. (score_value (score c), timeRange c)) \<circ> clips)
     (direct default_config sample_engine uuids inherited_key_run)
   = Some [(Some 16, \<lparr>startSeconds = 0, endSeconds = 3\<rparr>),
           (None, \<lparr>startSeconds = 18, endSeconds = 23\<rparr>)]
   \<and> map_option (map_option (\<lambda>h. (score_value (score h), timeRange h)) \<circ> hookClip)
       (direct default_config sample_engine uuids inherited_key_run)
     = Some (Some (None, \<lparr>startSeconds = 19, endSeconds = 22\<rparr>))"
  by code_simp

text \<open>
  C9 (amended). For a non-empty list of well-formed clips whose scores are numbers,
  \<open>createHookIntro\<close> returns a hook made of the first clip of the highest score,
  \<open>best\<close>: no clip has a higher score and every clip before \<open>best\<close> has a lower one.
  The hook is the new clip of type \<open>hook\<close> with the score of \<open>best\<close> and the range
  \<open>[max(0, mid - 1.5), mid + 1.5]\<close>, \<open>mid\<close> being the midpoint of \<open>best\<close>. It is
  centred on \<open>mid\<close> and lasts exactly 3 seconds when \<open>mid \<ge> 1.5\<close>, as whenever \<open>best\<close>
  lasts at least 3 seconds; when \<open>mid < 1.5\<close> it starts at 0 and lasts \<open>mid + 1.5\<close>
  seconds, which is less than 3. For the empty list it returns no hook. The hook that
  \<open>direct\<close> returns is the one \<open>createHookIntro\<close> makes of the clips it returns, which
  are well-formed, and whose scores are numbers when no action intensity of the analyses
  reads an inherited member.
\<close>

theorem hook_from_best_clip:
  assumes "list_all clip_ok cs" and "numeric_scores cs"
  shows "(cs = [] \<longrightarrow> createHookIntro uuid cs = Some None)
    \<and> (cs \<noteq> [] \<longrightarrow>
         (\<exists>hook best i. createHookIntro uuid cs = Some (Some hook)
            \<and> i < length cs \<and> best = cs ! i
            \<and> (\<forall>j<length cs. scoreOf (cs ! j) \<le> scoreOf best)
            \<and> (\<forall>j<i. scoreOf (cs ! j) < scoreOf best)
            \<and> best \<in> set cs
            \<and> (\<forall>c\<in>set cs. scoreOf c \<le> scoreOf best)
            \<and> hook = Clip_new uuid
                 \<lparr>timeRange = \<lparr>startSeconds = max 0 (midpoint (timeRange best) - 3/2),
                               endSeconds = midpoint (timeRange best) + 3/2\<rparr>,
                  reason = ''hook'', score = score best, clipType = ''hook'',
                  label = ''HOOK'', priority = 0, clip_actionIntensity = [], clip_id = [],
                  clip_metadata = [(''isHook'', True)]\<rparr>
            \<and> score hook = score best \<and> clipType hook = ''hook''
            \<and> clip_start hook = max 0 (midpoint (timeRange best) - 3/2)
            \<and> clip_end hook = midpoint (timeRange best) + 3/2
            \<and> (3/2 \<le> midpoint (timeRange best) \<longrightarrow>
                  clip_duration hook = 3
                  \<and> midpoint (timeRange hook) = midpoint (timeRange best))
            \<and> (3 \<le> clip_duration best \<longrightarrow> clip_duration hook = 3)
            \<and> (midpoint (timeRange best) < 3/2 \<longrightarrow>
                  clip_start hook = 0
                  \<and> clip_duration hook = midpoint (timeRange best) + 3/2
                  \<and> clip_duration hook < 3)))
    \<and> (direct config eng rnd analyses = Some res \<longrightarrow>
         (\<exists>u. createHookIntro u (clips res) = Some (hookClip res))
         \<and> list_all clip_ok (clips res)
         \<and> ((\<forall>a\<in>set analyses. plain_key eng intensityScores (actionIntensity a))
              \<longrightarrow> numeric_scores (clips res)))"
proof -
  have empty: "cs = [] \<longrightarrow> createHookIntro uuid cs = Some None"
    by (simp add: createHookIntro_def)
  have nonempty: "cs \<noteq> [] \<longrightarrow>
         (\<exists>hook best i. createHookIntro uuid cs = Some (Some hook)
            \<and> i < length cs \<and> best = cs ! i
            \<and> (\<forall>j<length cs. scoreOf (cs ! j) \<le> scoreOf best)
            \<and> (\<forall>j<i. scoreOf (cs ! j) < scoreOf best)
            \<and> best \<in> set cs
            \<and> (\<forall>c\<in>set cs. scoreOf c \<le> scoreOf best)
            \<and> hook = Clip_new uuid
                 \<lparr>timeRange = \<lparr>startSeconds = max 0 (midpoint (timeRange best) - 3/2),
                               endSeconds = midpoint (timeRange best) + 3/2\<rparr>,
                  reason = ''hook'', score = score best, clipType = ''hook'',
                  label = ''HOOK'', priority = 0, clip_actionIntensity = [], clip_id = [],
                  clip_metadata = [(''isHook'', True)]\<rparr>
            \<and> score hook = score best \<and> clipType hook = ''hook''
            \<and> clip_start hook = max 0 (midpoint (timeRange best) - 3/2)
            \<and> clip_end hook = midpoint (timeRange best) + 3/2
            \<and> (3/2 \<le> midpoint (timeRange best) \<longrightarrow>
                  clip_duration hook = 3
                  \<and> midpoint (timeRange hook) = midpoint (timeRange best))
            \<and> (3 \<le> clip_duration best \<longrightarrow> clip_duration hook = 3)
            \<and> (midpoint (timeRange best) < 3/2 \<longrightarrow>
                  clip_start hook = 0
                  \<and> clip_duration hook = midpoint (timeRange best) + 3/2
                  \<and> clip_duration hook < 3))"
  proof
    assume "cs \<noteq> []"
    then obtain first rest where cs: "cs = first # rest" by (cases cs) auto
    let ?best = "bestClip first rest"
    let ?mid = "midpoint (timeRange ?best)"
    let ?hook = "Clip_new uuid
        \<lparr>timeRange = \<lparr>startSeconds = max 0 (?mid - 3/2), endSeconds = ?mid + 3/2\<rparr>,
         reason = ''hook'', score = score ?best, clipType = ''hook'',
         label = ''HOOK'', priority = 0, clip_actionIntensity = [], clip_id = [],
         clip_metadata = [(''isHook'', True)]\<rparr>"
    obtain i where i: "i < length cs" and bi: "?best = cs ! i"
      and mx: "\<forall>j<length cs. scoreOf (cs ! j) \<le> scoreOf ?best"
      and fst: "\<forall>j<i. scoreOf (cs ! j) < scoreOf ?best"
      using bestClip_first_highest [of first rest] assms(2) unfolding cs by metis
    have mem: "?best \<in> set cs" unfolding bi using i by (rule nth_mem)
    have mx': "\<forall>c\<in>set cs. scoreOf c \<le> scoreOf ?best"
      using mx by (auto simp: in_set_conv_nth)
    have "clip_ok ?best" using assms(1) mem by (simp add: list_all_iff)
    then have b: "0 \<le> clip_start ?best" "clip_start ?best < clip_end ?best"
      using clip_ok_bounds by blast+
    then have pos: "0 < ?mid + 3/2"
      unfolding midpoint_def clip_start_def clip_end_def by argo
    have res: "createHookIntro uuid cs = Some (Some ?hook)"
      unfolding cs using pos by (rule createHookIntro_Cons)
    have f0: "?hook = ?hook" by (rule refl)
    have f1: "score ?hook = score ?best" "clipType ?hook = ''hook''"
      by (simp_all add: Clip_new_def)
    have f2: "clip_start ?hook = max 0 (?mid - 3/2)" "clip_end ?hook = ?mid + 3/2"
      by (simp_all add: Clip_new_def clip_start_def clip_end_def)
    have f3: "3/2 \<le> ?mid \<longrightarrow> clip_duration ?hook = 3 \<and> midpoint (timeRange ?hook) = ?mid"
      by (simp add: Clip_new_def clip_duration_def duration_def midpoint_def max_def)
    have "3 \<le> clip_duration ?best \<longrightarrow> 3/2 \<le> ?mid"
      using b unfolding clip_duration_def duration_def midpoint_def clip_start_def clip_end_def
      by argo
    then have f4: "3 \<le> clip_duration ?best \<longrightarrow> clip_duration ?hook = 3"
      using f3 by blast
    have f5: "?mid < 3/2 \<longrightarrow> clip_start ?hook = 0 \<and> clip_duration ?hook = ?mid + 3/2
                \<and> clip_duration ?hook < 3"
      by (simp add: Clip_new_def clip_start_def clip_duration_def duration_def max_def)
    show "\<exists>hook best i. createHookIntro uuid cs = Some (Some hook)
            \<and> i < length cs \<and> best = cs ! i
            \<and> (\<forall>j<length cs. scoreOf (cs ! j) \<le> scoreOf best)
            \<and> (\<forall>j<i. scoreOf (cs ! j) < scoreOf best)
            \<and> best \<in> set cs
            \<and> (\<forall>c\<in>set cs. scoreOf c \<le> scoreOf best)
            \<and> hook = Clip_new uuid
                 \<lparr>timeRange = \<lparr>startSeconds = max 0 (midpoint (timeRange best) - 3/2),
                               endSeconds = midpoint (timeRange best) + 3/2\<rparr>,
                  reason = ''hook'', score = score best, clipType = ''hook'',
                  label = ''HOOK'', priority = 0, clip_actionIntensity = [], clip_id = [],
                  clip_metadata = [(''isHook'', True)]\<rparr>
            \<and> score hook = score best \<and> clipType hook = ''hook''
            \<and> clip_start hook = max 0 (midpoint (timeRange best) - 3/2)
            \<and> clip_end hook = midpoint (timeRange best) + 3/2
            \<and> (3/2 \<le> midpoint (timeRange best) \<longrightarrow>
                  clip_duration hook = 3
                  \<and> midpoint (timeRange hook) = midpoint (timeRange best))
            \<and> (3 \<le> clip_duration best \<longrightarrow> clip_duration hook = 3)
            \<and> (midpoint (timeRange best) < 3/2 \<longrightarrow>
                  clip_start hook = 0
                  \<and> clip_duration hook = midpoint (timeRange best) + 3/2
                  \<and> clip_duration hook < 3)"
      by (rule exI [of _ ?hook], rule exI [of _ ?best], rule exI [of _ i])
         (intro conjI res i bi mx fst mem mx' f0 f1 f2 f3 f4 f5)
  qed
  have dir: "direct config eng rnd analyses = Some res \<longrightarrow>
         (\<exists>u. createHookIntro u (clips res) = Some (hookClip res))
         \<and> list_all clip_ok (clips res)
         \<and> ((\<forall>a\<in>set analyses. plain_key eng intensityScores (actionIntensity a))
              \<longrightarrow> numeric_scores (clips res))"
    using direct_parts [of config eng rnd analyses res] direct_ok [of config eng rnd analyses res]
      direct_numeric [of config eng rnd analyses res]
    by blast
  show ?thesis by (intro conjI empty nonempty dir)
qed

theorem hook_from_best_clip_witness:
  "list_all clip_ok scenario_S4_clips \<and> numeric_scores scenario_S4_clips
   \<and> createHookIntro ''u'' scenario_S4_clips
     = Some (Some (Clip_new ''u''
         \<lparr>timeRange = \<lparr>startSeconds = 3/2, endSeconds = 9/2\<rparr>, reason = ''hook'',
          score = QualityScore_new (Some 0), clipType = ''hook'', label = ''HOOK'',
          priority = 0, clip_actionIntensity = [], clip_id = [],
          clip_metadata = [(''isHook'', True)]\<rparr>))
   \<and> (\<exists>hook best i. createHookIntro ''u'' scenario_S4_clips = Some (Some hook)
         \<and> i < length scenario_S4_clips \<and> best = scenario_S4_clips ! i
         \<and> (\<forall>j<length scenario_S4_clips. scoreOf (scenario_S4_clips ! j) \<le> scoreOf best)
         \<and> (\<forall>j<i. scoreOf (scenario_S4_clips ! j) < scoreOf best)
         \<and> clipType hook = ''hook'')"
proof -
  have h: "list_all clip_ok scenario_S4_clips"
    by (simp add: scenario_S4_clips_def clip_eval)
  have n: "numeric_scores scenario_S4_clips"
    by (simp add: scenario_S4_clips_def numeric_scores_def clip_eval)
  have ne: "scenario_S4_clips \<noteq> []" by (simp add: scenario_S4_clips_def)
  have ev: "createHookIntro ''u'' scenario_S4_clips
     = Some (Some (Clip_new ''u''
         \<lparr>timeRange = \<lparr>startSeconds = 3/2, endSeconds = 9/2\<rparr>, reason = ''hook'',
          score = QualityScore_new (Some 0), clipType = ''hook'', label = ''HOOK'',
          priority = 0, clip_actionIntensity = [], clip_id = [],
          clip_metadata = [(''isHook'', True)]\<rparr>))"
    by (simp add: createHookIntro_def bestClip_def js_ge_def scenario_S4_clips_def clip_eval
        Let_def)
  from hook_from_best_clip [OF h n, of "''u''", THEN conjunct2, THEN conjunct1, THEN mp, OF ne]
  obtain hook best i where
    "createHookIntro ''u'' scenario_S4_clips = Some (Some hook)"
    "i < length scenario_S4_clips" "best = scenario_S4_clips ! i"
    "\<forall>j<length scenario_S4_clips. scoreOf (scenario_S4_clips ! j) \<le> scoreOf best"
    "\<forall>j<i. scoreOf (scenario_S4_clips ! j) < scoreOf best"
    "clipType hook = ''hook''"
    by (elim exE conjE)
  then have "\<exists>hook best i. createHookIntro ''u'' scenario_S4_clips = Some (Some hook)
         \<and> i < length scenario_S4_clips \<and> best = scenario_S4_clips ! i
         \<and> (\<forall>j<length scenario_S4_clips. scoreOf (scenario_S4_clips ! j) \<le> scoreOf best)
         \<and> (\<forall>j<i. scoreOf (scenario_S4_clips ! j) < scoreOf best)
         \<and> clipType hook = ''hook''"
    by (intro exI conjI)
  then show ?thesis by (intro conjI h n ev)
qed

text \<open>
  C9 as stated fails: the hook is not always centred, nor always 3 seconds long. A
  director with \<open>targetDuration = 2\<close> and \<open>minClipLength = 1\<close>, given one exciting frame
  at time 0, returns the clip \<open>[0, 2]\<close> and the hook \<open>[0, 2.5]\<close>; the default director,
  given one exciting frame at time \<open>-1\<close>, returns the clip \<open>[0, 2.5]\<close> and the hook
  \<open>[0, 2.75]\<close>.
\<close>

theorem hook_shorter_than_three_counterexample:
  "map_option (map timeRange \<circ> clips) (direct short_config sample_engine uuids [kill_frame 0])
     = Some [\<lparr>startSeconds = 0, endSeconds = 2\<rparr>]
   \<and> map_option (map_option timeRange \<circ> hookClip)
       (direct short_config sample_engine uuids [kill_frame 0])
     = Some (Some \<lparr>startSeconds = 0, endSeconds = 5/2\<rparr>)
   \<and> duration \<lparr>startSeconds = 0, endSeconds = 5/2\<rparr> \<noteq> 3
   \<and> midpoint \<lparr>startSeconds = 0, endSeconds = 5/2\<rparr>
      \<noteq> midpoint \<lparr>startSeconds = 0, endSeconds = 2\<rparr>
   \<and> map_option (map timeRange \<circ> clips)
       (direct default_config sample_engine uuids [kill_frame (-1)])
     = Some [\<lparr>startSeconds = 0, endSeconds = 5/2\<rparr>]
   \<and> map_option (map_option timeRange \<circ> hookClip)
       (direct default_config sample_engine uuids [kill_frame (-1)])
     = Some (Some \<lparr>startSeconds = 0, endSeconds = 11/4\<rparr>)
   \<and> duration \<lparr>startSeconds = 0, endSeconds = 11/4\<rparr> \<noteq> 3"
  by code_simp

subsection \<open>Determinism of the director\<close>

lemma strip_id_fields:
  "timeRange (strip_id c) = timeRange c" "score (strip_id c) = score c"
  "priority (strip_id c) = priority c" "clipType (strip_id c) = clipType c"
  "clip_actionIntensity (strip_id c) = clip_actionIntensity c"
  "clip_start (strip_id c) = clip_start c" "clip_end (strip_id c) = clip_end c"
  "clip_duration (strip_id c) = clip_duration c"
  by (simp_all add: strip_id_def clip_start_def clip_end_def clip_duration_def)

lemma strip_withAdjustedRange:
  "withAdjustedRange (strip_id c) r = strip_id (withAdjustedRange c r)"
  by (simp add: withAdjustedRange_def Clip_new_def strip_id_def or_default_def)

lemma strip_Clip_new: "strip_id (Clip_new u opts) = strip_id (Clip_new [] opts)"
  by (simp add: Clip_new_def strip_id_def)

lemma insort_key_strip:
  "(\<And>c. f (strip_id c) = f c) \<Longrightarrow>
   insort_key f (strip_id x) (map strip_id xs) = map strip_id (insort_key f x xs)"
  by (induction xs) simp_all

lemma sort_key_strip:
  "(\<And>c. f (strip_id c) = f c) \<Longrightarrow>
   sort_key f (map strip_id cs) = map strip_id (sort_key f cs)"
  by (induction cs) (simp_all add: insort_key_strip)

lemma mergeLoop_strip:
  "mergeLoop (map strip_id front) (strip_id lastClip) (map strip_id rest)
   = map_option (map strip_id) (mergeLoop front lastClip rest)"
proof (induction rest arbitrary: front lastClip)
  case Nil
  then show ?case by simp
next
  case (Cons current rest)
  have b: "mergeLoop (map strip_id (front @ [lastClip])) (strip_id current) (map strip_id rest)
             = map_option (map strip_id) (mergeLoop (front @ [lastClip]) current rest)"
    by (rule Cons.IH)
  show ?case
    using b
    by (simp add: strip_id_fields strip_withAdjustedRange Cons.IH split: option.splits)
qed

lemma mergeOverlappingClips_strip:
  "mergeOverlappingClips (map strip_id cs) = map_option (map strip_id) (mergeOverlappingClips cs)"
proof -
  have s: "sort_key clip_start (map strip_id cs) = map strip_id (sort_key clip_start cs)"
    by (rule sort_key_strip) (simp add: strip_id_fields)
  show ?thesis
    unfolding mergeOverlappingClips_def s
    using mergeLoop_strip [of "[]"]
    by (cases "sort_key clip_start cs") simp_all
qed

lemma those_map_strip:
  "(\<And>x. f (strip_id x) = map_option strip_id (f x)) \<Longrightarrow>
   those (map f (map strip_id xs)) = map_option (map strip_id) (those (map f xs))"
  by (induction xs) (auto split: option.splits simp: option.map_comp comp_def)

lemma strip_rescored:
  "Clip_new (clip_id (strip_id c)) ((strip_id c)\<lparr>score := x, clip_actionIntensity := y\<rparr>)
   = strip_id (Clip_new (clip_id c) (c\<lparr>score := x, clip_actionIntensity := y\<rparr>))"
  by (simp add: Clip_new_def strip_id_def or_default_def)

lemma scoreClip_strip:
  "scoreClip eng p analyses (strip_id c) = strip_id (scoreClip eng p analyses c)"
  by (simp add: scoreClip_def Let_def strip_id_fields strip_rescored cong: option.case_cong)

lemma scoreClips_strip:
  "scoreClips eng p (map strip_id cs) analyses = map strip_id (scoreClips eng p cs analyses)"
  by (simp add: scoreClips_def scoreClip_strip)

lemma strip_withAdjustedRange_fun:
  "withAdjustedRange (strip_id c) = (\<lambda>r. strip_id (withAdjustedRange c r))"
  by (rule ext) (rule strip_withAdjustedRange)

lemma adjustClipLength_strip:
  "adjustClipLength p (strip_id c) = map_option strip_id (adjustClipLength p c)"
  by (simp add: adjustClipLength_def Let_def strip_id_fields strip_withAdjustedRange_fun
      option.map_comp comp_def)

lemma adjustClipLengths_strip:
  "adjustClipLengths p (map strip_id cs) = map_option (map strip_id) (adjustClipLengths p cs)"
  unfolding adjustClipLengths_def by (rule those_map_strip) (rule adjustClipLength_strip)

lemma trimLoop_strip:
  "trimLoop p (map strip_id trimmed) acc (map strip_id rest)
   = map_option (map strip_id) (trimLoop p trimmed acc rest)"
proof (induction rest arbitrary: trimmed acc)
  case Nil
  then show ?case by simp
next
  case (Cons clip rest)
  have b: "trimLoop p (map strip_id (trimmed @ [clip])) (acc + clip_duration clip)
             (map strip_id rest)
           = map_option (map strip_id)
               (trimLoop p (trimmed @ [clip]) (acc + clip_duration clip) rest)"
    by (rule Cons.IH)
  show ?case
    using b
    by (simp add: strip_id_fields strip_withAdjustedRange Let_def split: option.splits)
qed

lemma totalDurationOf_strip: "totalDurationOf (map strip_id cs) = totalDurationOf cs"
  by (simp add: totalDurationOf_sum comp_def strip_id_fields)

lemma trimToTargetDuration_strip:
  "trimToTargetDuration p (map strip_id cs)
   = map_option (map strip_id) (trimToTargetDuration p cs)"
  using trimLoop_strip [of p "[]" 0 cs]
  by (simp add: trimToTargetDuration_def totalDurationOf_strip)

lemma filter_strip:
  "(\<And>c. P (strip_id c) = P c) \<Longrightarrow> filter P (map strip_id cs) = map strip_id (filter P cs)"
  by (induction cs) simp_all

lemma pacingLoop_strip:
  "pacingLoop (map strip_id high) (map strip_id medium) = map strip_id (pacingLoop high medium)"
  by (induction high medium rule: pacingLoop.induct) simp_all

lemma optimizePacing_strip: "optimizePacing (map strip_id cs) = map strip_id (optimizePacing cs)"
proof -
  let ?H = "\<lambda>c. clip_actionIntensity c = ''very_high'' \<or> clip_actionIntensity c = ''high''"
  let ?M = "\<lambda>c. clip_actionIntensity c = ''medium''"
  let ?L = "\<lambda>c. clip_actionIntensity c = ''low''"
  have h: "filter ?H (map strip_id cs) = map strip_id (filter ?H cs)"
    by (rule filter_strip) (simp add: strip_id_fields)
  have m: "filter ?M (map strip_id cs) = map strip_id (filter ?M cs)"
    by (rule filter_strip) (simp add: strip_id_fields)
  have l: "filter ?L (map strip_id cs) = map strip_id (filter ?L cs)"
    by (rule filter_strip) (simp add: strip_id_fields)
  have p0: "pacingLoop [] (map strip_id (filter ?M cs)) = map strip_id (pacingLoop [] (filter ?M cs))"
    using pacingLoop_strip [of "[]"] by simp
  show ?thesis
    unfolding optimizePacing_def Let_def h m l
    by (cases "filter ?H cs") (simp_all add: p0 pacingLoop_strip take_map)
qed

lemma applyOrder_map: "applyOrder order (map f xs) = map f (applyOrder order xs)"
proof (cases "sort order = [0..<length xs]")
  case True
  have "set order = set (sort order)" by simp
  then have "set order = {0..<length xs}" unfolding True by simp
  then have "map (nth (map f xs)) order = map f (map (nth xs) order)" by simp
  then show ?thesis using True by (simp add: applyOrder_def)
next
  case False
  then show ?thesis by (simp add: applyOrder_def)
qed

lemma sortByScore_strip:
  "sortByScore eng (map strip_id cs) = map strip_id (sortByScore eng cs)"
proof -
  have s: "sort_key descendingKey (map strip_id cs) = map strip_id (sort_key descendingKey cs)"
    by (rule sort_key_strip) (simp add: descendingKey_def strip_id_fields)
  have c: "list_all (\<lambda>c. score_value (score c) \<noteq> None) (map strip_id cs)
           = list_all (\<lambda>c. score_value (score c) \<noteq> None) cs"
    by (simp add: list_all_iff strip_id_fields)
  have m: "map (\<lambda>c. score_value (score c)) (map strip_id cs)
           = map (\<lambda>c. score_value (score c)) cs"
    by (simp add: strip_id_fields)
  show ?thesis unfolding sortByScore_def c m s applyOrder_map by simp
qed

lemma optimizeClips_strip:
  "optimizeClips eng p (map strip_id cs) analyses
   = map_option (map strip_id) (optimizeClips eng p cs analyses)"
  by (cases "adjustClipLengths p (scoreClips eng p cs analyses)";
      cases "trimToTargetDuration p
               (sortByScore eng (the (adjustClipLengths p (scoreClips eng p cs analyses))))")
     (simp_all add: optimizeClips_def scoreClips_strip adjustClipLengths_strip
        sortByScore_strip trimToTargetDuration_strip optimizePacing_strip)

lemma strip_Clip_new_canon:
  "strip_id (Clip_new u opts)
   = opts\<lparr>clip_actionIntensity := or_default (clip_actionIntensity opts) ''low'', clip_id := []\<rparr>"
  by (simp add: Clip_new_def strip_id_def)

lemma multiKillClip_strip:
  "map_option strip_id (multiKillClip u mk) = map_option strip_id (multiKillClip [] mk)"
  by (simp add: multiKillClip_def Let_def strip_Clip_new_canon split: option.splits)

lemma clutchClip_strip:
  "map_option strip_id (clutchClip u cm) = map_option strip_id (clutchClip [] cm)"
  by (simp add: clutchClip_def strip_Clip_new_canon split: option.splits)

lemma excitementClip_strip:
  "map_option strip_id (excitementClip u a) = map_option strip_id (excitementClip [] a)"
  by (simp add: excitementClip_def strip_Clip_new_canon split: option.splits)

lemma those_enumerate_strip:
  assumes "\<And>u x. map_option strip_id (f u x) = map_option strip_id (f [] x)"
  shows "map_option (map strip_id) (those (map (\<lambda>(k, x). f (rnd k) x) (enumerate n xs)))
    = those (map (\<lambda>x. map_option strip_id (f [] x)) xs)"
proof (induction xs arbitrary: n)
  case Nil
  then show ?case by simp
next
  case (Cons x xs)
  show ?case
    using assms [of "rnd n" x]
    by (cases "those (map (\<lambda>(k, x). f (rnd k) x) (enumerate (Suc n) xs))";
        cases "f (rnd n) x"; cases "f [] x")
       (auto simp: Cons.IH [of "Suc n", symmetric])
qed

lemma seedHighlights_strip:
  "map_option (map strip_id) (seedHighlights rnd analyses mes cms)
   = map_option (map strip_id) (seedHighlights rnd' analyses mes cms)"
proof -
  have lift: "\<And>a1 a2 a3.
    map_option (map strip_id)
      (Option.bind a1 (\<lambda>h1. Option.bind a2 (\<lambda>h2. Option.bind a3 (\<lambda>h3. Some (h1 @ h2 @ h3)))))
    = Option.bind (map_option (map strip_id) a1) (\<lambda>h1.
        Option.bind (map_option (map strip_id) a2) (\<lambda>h2.
          Option.bind (map_option (map strip_id) a3) (\<lambda>h3. Some (h1 @ h2 @ h3))))"
  proof -
    fix a1 a2 a3 :: "Clip list option"
    show "map_option (map strip_id)
      (Option.bind a1 (\<lambda>h1. Option.bind a2 (\<lambda>h2. Option.bind a3 (\<lambda>h3. Some (h1 @ h2 @ h3)))))
    = Option.bind (map_option (map strip_id) a1) (\<lambda>h1.
        Option.bind (map_option (map strip_id) a2) (\<lambda>h2.
          Option.bind (map_option (map strip_id) a3) (\<lambda>h3. Some (h1 @ h2 @ h3))))"
      by (cases a1; cases a2; cases a3) simp_all
  qed
  show ?thesis
    unfolding seedHighlights_def lift
    by (simp only: those_enumerate_strip [of multiKillClip rnd, OF multiKillClip_strip]
        those_enumerate_strip [of multiKillClip rnd', OF multiKillClip_strip]
        those_enumerate_strip [of clutchClip rnd, OF clutchClip_strip]
        those_enumerate_strip [of clutchClip rnd', OF clutchClip_strip]
        those_enumerate_strip [of excitementClip rnd, OF excitementClip_strip]
        those_enumerate_strip [of excitementClip rnd', OF excitementClip_strip])
qed

lemma bind_strip:
  assumes "\<And>x. F (map strip_id x) = map_option (map strip_id) (F x)"
  shows "map_option (map strip_id) (Option.bind X F) = Option.bind (map_option (map strip_id) X) F"
  by (cases X) (simp_all add: assms)

lemma suggestHighlights_strip:
  "map_option (map strip_id) (suggestHighlights rnd analyses mes cms)
   = map_option (map strip_id) (suggestHighlights rnd' analyses mes cms)"
proof -
  have s: "\<And>xs. sort_key (\<lambda>c. - priority c) (map strip_id xs)
           = map strip_id (sort_key (\<lambda>c. - priority c) xs)"
    by (rule sort_key_strip) (simp add: strip_id_fields)
  have F: "\<And>x. mergeOverlappingClips (sort_key (\<lambda>c. - priority c) (map strip_id x))
            = map_option (map strip_id) (mergeOverlappingClips (sort_key (\<lambda>c. - priority c) x))"
    by (simp add: s mergeOverlappingClips_strip)
  show ?thesis
    unfolding suggestHighlights_def bind_strip [of "\<lambda>hs. mergeOverlappingClips (sort_key (\<lambda>c. - priority c) hs)", OF F]
    by (simp only: seedHighlights_strip [of rnd analyses mes cms rnd'])
qed

lemma bestClip_strip:
  "bestClip (strip_id first) (map strip_id rest) = strip_id (bestClip first rest)"
  unfolding bestClip_def
  by (induction rest arbitrary: first) (simp_all add: strip_id_fields if_distrib [of strip_id])

lemma strip_Clip_new_noid:
  "clip_id opts = [] \<Longrightarrow> strip_id (Clip_new u opts) = Clip_new [] opts"
  by (simp add: Clip_new_def strip_id_def or_default_def)

lemma createHookIntro_strip:
  "map_option (map_option strip_id) (createHookIntro u cs) = createHookIntro [] (map strip_id cs)"
proof (cases cs)
  case Nil
  then show ?thesis by (simp add: createHookIntro_def)
next
  case (Cons first rest)
  show ?thesis
    unfolding Cons
    by (simp add: createHookIntro_def Let_def bestClip_strip strip_id_fields
        strip_Clip_new_noid split: option.splits)
qed

lemma analyzeEngagementCurve_strip:
  "analyzeEngagementCurve p (map strip_id cs) = analyzeEngagementCurve p cs"
  by (simp add: analyzeEngagementCurve_def calculatePacingScore_def totalDurationOf_strip
      comp_def strip_id_fields cong: list.case_cong)

lemma analyzeVariety_strip: "analyzeVariety (map strip_id cs) = analyzeVariety cs"
  by (simp add: analyzeVariety_def comp_def strip_id_fields)

lemma suggestImprovements_strip:
  "suggestImprovements (map strip_id cs) analyses = suggestImprovements cs analyses"
proof -
  have "filter (\<lambda>c. case score_value (score c) of Some v \<Rightarrow> v < 30 | None \<Rightarrow> False)
          (map strip_id cs)
        = map strip_id
            (filter (\<lambda>c. case score_value (score c) of Some v \<Rightarrow> v < 30 | None \<Rightarrow> False) cs)"
    by (rule filter_strip) (simp add: strip_id_fields)
  moreover have "filter (\<lambda>c. clipType c \<noteq> []) (map strip_id cs)
        = map strip_id (filter (\<lambda>c. clipType c \<noteq> []) cs)"
    by (rule filter_strip) (simp add: strip_id_fields)
  ultimately show ?thesis
    by (simp add: suggestImprovements_def totalDurationOf_strip comp_def strip_id_fields)
qed

lemma direct_unfold:
  "direct config eng rnd analyses =
     (case suggestHighlights rnd (analyzeExcitementLevels eng analyses)
             (detectMultiEvents (analyzeExcitementLevels eng analyses))
             (detectClutchMoments (analyzeExcitementLevels eng analyses)) of
        None \<Rightarrow> None
      | Some hs \<Rightarrow>
          (case optimizeClips eng (CreativeDirector_planner config) hs
                  (analyzeExcitementLevels eng analyses) of
             None \<Rightarrow> None
           | Some optimized \<Rightarrow>
               (case createHookIntro
                       (rnd (seedCount (analyzeExcitementLevels eng analyses)
                               (detectMultiEvents (analyzeExcitementLevels eng analyses))
                               (detectClutchMoments (analyzeExcitementLevels eng analyses))))
                       optimized of
                  None \<Rightarrow> None
                | Some hook \<Rightarrow>
                    Some (resultOf (CreativeDirector_planner config)
                            (analyzeExcitementLevels eng analyses) optimized hook))))"
  by (simp add: direct_def Let_def resultOf_def split: option.splits)

lemma strip_ids_resultOf:
  assumes "map strip_id optimized = map strip_id optimized'"
    and "map_option strip_id hook = map_option strip_id hook'"
  shows "strip_ids (resultOf p enhanced optimized hook)
    = strip_ids (resultOf p enhanced optimized' hook')"
proof -
  have "analyzeEngagementCurve p optimized = analyzeEngagementCurve p optimized'"
    using analyzeEngagementCurve_strip [of p optimized]
      analyzeEngagementCurve_strip [of p optimized'] assms(1) by simp
  moreover have "analyzeVariety optimized = analyzeVariety optimized'"
    using analyzeVariety_strip [of optimized] analyzeVariety_strip [of optimized'] assms(1)
    by simp
  moreover have "suggestImprovements optimized enhanced = suggestImprovements optimized' enhanced"
    using suggestImprovements_strip [of optimized enhanced]
      suggestImprovements_strip [of optimized' enhanced] assms(1) by simp
  ultimately show ?thesis using assms by (simp add: strip_ids_def resultOf_def)
qed

lemma map_option_eq_cases:
  assumes "map_option f x = map_option f y"
  shows "(x = None \<and> y = None) \<or> (\<exists>a b. x = Some a \<and> y = Some b \<and> f a = f b)"
  using assms by (cases x; cases y) simp_all

text \<open>
  C8 (amended). \<open>direct\<close> is deterministic up to the clip ids: two invocations on the
  same analyses, whatever UUIDs each of them draws, both throw or both return, and then
  return the same clips in the same order and the same hook in every field but \<open>id\<close>,
  and the same engagement curve, variety analysis, suggestions, multi-events, clutch
  moments and momentum shifts.
\<close>

theorem direct_deterministic_up_to_ids:
  "map_option strip_ids (direct config eng rnd analyses)
   = map_option strip_ids (direct config eng rnd' analyses)"
proof -
  let ?E = "analyzeExcitementLevels eng analyses"
  let ?M = "detectMultiEvents ?E"
  let ?C = "detectClutchMoments ?E"
  let ?P = "CreativeDirector_planner config"
  let ?N = "seedCount ?E ?M ?C"
  from map_option_eq_cases [OF suggestHighlights_strip [of rnd ?E ?M ?C rnd']]
  show ?thesis
  proof (elim disjE conjE exE)
    assume "suggestHighlights rnd ?E ?M ?C = None" "suggestHighlights rnd' ?E ?M ?C = None"
    then show ?thesis by (simp add: direct_unfold)
  next
    fix hs hs'
    assume hs: "suggestHighlights rnd ?E ?M ?C = Some hs"
      "suggestHighlights rnd' ?E ?M ?C = Some hs'" "map strip_id hs = map strip_id hs'"
    have "map_option (map strip_id) (optimizeClips eng ?P hs ?E)
          = map_option (map strip_id) (optimizeClips eng ?P hs' ?E)"
      using optimizeClips_strip [of eng ?P hs ?E] optimizeClips_strip [of eng ?P hs' ?E] hs(3)
      by simp
    from map_option_eq_cases [OF this]
    show ?thesis
    proof (elim disjE conjE exE)
      assume "optimizeClips eng ?P hs ?E = None" "optimizeClips eng ?P hs' ?E = None"
      then show ?thesis using hs(1,2) by (simp add: direct_unfold)
    next
      fix opt opt'
      assume opt: "optimizeClips eng ?P hs ?E = Some opt" "optimizeClips eng ?P hs' ?E = Some opt'"
        "map strip_id opt = map strip_id opt'"
      have "map_option (map_option strip_id) (createHookIntro (rnd ?N) opt)
            = map_option (map_option strip_id) (createHookIntro (rnd' ?N) opt')"
        using createHookIntro_strip [of "rnd ?N" opt] createHookIntro_strip [of "rnd' ?N" opt']
          opt(3) by simp
      from map_option_eq_cases [OF this]
      show ?thesis
      proof (elim disjE conjE exE)
        assume "createHookIntro (rnd ?N) opt = None" "createHookIntro (rnd' ?N) opt' = None"
        then show ?thesis using hs(1,2) opt(1,2) by (simp add: direct_unfold)
      next
        fix hook hook'
        assume hook: "createHookIntro (rnd ?N) opt = Some hook"
          "createHookIntro (rnd' ?N) opt' = Some hook'"
          "map_option strip_id hook = map_option strip_id hook'"
        have "strip_ids (resultOf ?P ?E opt hook) = strip_ids (resultOf ?P ?E opt' hook')"
          using opt(3) hook(3) by (rule strip_ids_resultOf)
        then show ?thesis using hs(1,2) opt(1,2) hook(1,2) by (simp add: direct_unfold)
      qed
    qed
  qed
qed

theorem direct_deterministic_up_to_ids_witness:
  "map_option strip_ids (direct default_config sample_engine uuids [kill_frame 0])
   = map_option strip_ids (direct default_config sample_engine other_uuids [kill_frame 0])"
  by (rule direct_deterministic_up_to_ids)

text \<open>
  C8 as stated fails: every clip is constructed without an \<open>id\<close> and draws a fresh one
  from \<open>crypto.randomUUID()\<close>, so two invocations on the same frame, drawing different
  UUIDs, return clips that differ in their \<open>id\<close>.
\<close>

theorem direct_ids_differ_counterexample:
  "map_option (map clip_id \<circ> clips) (direct default_config sample_engine uuids [kill_frame 0])
     = Some [''uuid-0'']
   \<and> map_option (map clip_id \<circ> clips) (direct default_config sample_engine other_uuids [kill_frame 0])
     = Some [''other-0'']
   \<and> direct default_config sample_engine uuids [kill_frame 0]
      \<noteq> direct default_config sample_engine other_uuids [kill_frame 0]"
  by code_simp

end
